theory Spec2Isabelle
  imports Complex_Main "HOL-Library.Word"
begin

unbundle bit_operations_syntax

section \<open>The trial engine\<close>

text \<open>
  Bankrolls, the bet amount and the win probability are \<^verbatim>\<open>double\<close> in the source; they
  are modelled as \<^typ>\<open>real\<close>. The additions and subtractions of the trial engine are
  exact, so the statements about it are about exact arithmetic; the arithmetic of the
  histogram is rounded to double precision, since the bin a survivor is counted in
  depends on the rounding.
  \<^verbatim>\<open>long long\<close> and \<^verbatim>\<open>int\<close> counters are \<^typ>\<open>int\<close>; none of the loops can overflow
  its counter, since each counter stays below a bound of its own type.

  \<^verbatim>\<open>std::mt19937\<close> and \<^verbatim>\<open>std::uniform_real_distribution\<close> belong to the standard
  library, not to the repository. A seeded generator is therefore taken as a parameter:
  the sequence of values that successive calls \<^verbatim>\<open>distribution(generator)\<close> return.
  The library's own generator is defined further down, from the C++ standard, for the
  results that depend on it.
\<close>

type_synonym draws = "nat \<Rightarrow> real"

type_synonym generator = "32 word \<Rightarrow> draws"

text \<open>
  What one call of \<^verbatim>\<open>simulateSingleRun\<close> does. Only \<open>bankroll\<close> is returned by the
  source; the other fields record the run: how many values were drawn, the bankroll held
  when each bet was made (oldest first), and whether the function left through the
  \<^verbatim>\<open>return\<close> inside the loop.
\<close>

record run =
  bankroll :: real
  drawn :: nat
  staked :: "real list"
  ruined :: bool

text \<open>
  The \<^verbatim>\<open>for\<close> loop of \<^verbatim>\<open>simulateSingleRun\<close> in Source.cpp, from loop index \<open>i\<close> with
  \<open>k\<close> values drawn so far.
\<close>

function betLoop :: "draws \<Rightarrow> real \<Rightarrow> int \<Rightarrow> real \<Rightarrow> int \<Rightarrow> real \<Rightarrow> nat \<Rightarrow> real list \<Rightarrow> run" where
  "betLoop u betAmount numBets houseWinProb i currentBankroll k hist =
     (if i < numBets then
        (let c = (if u k < houseWinProb then currentBankroll + betAmount
                  else currentBankroll - betAmount)
         in if c < betAmount
            then \<lparr>bankroll = c, drawn = Suc k, staked = hist @ [currentBankroll], ruined =
                True\<rparr>
            else betLoop u betAmount numBets houseWinProb (i + 1) c (Suc k)
                   (hist @ [currentBankroll]))
      else \<lparr>bankroll = currentBankroll, drawn = k, staked = hist, ruined = False\<rparr>)"
  by pat_completeness auto
termination
  by (relation "measure (\<lambda>(u, b, n, p, i, c, k, h). nat (n - i))") auto

declare betLoop.simps [simp del]

text \<open>
  The seed: \<^verbatim>\<open>unsigned seed =
      system_clock::now().time_since_epoch().count() + runIndex\<close>.
  The sum is converted to a 32-bit unsigned value. \<open>now\<close> is the clock reading.
\<close>

definition seedOf :: "int \<Rightarrow> int \<Rightarrow> 32 word" where
  "seedOf now runIndex = word_of_int (now + runIndex)"

definition trial :: "generator \<Rightarrow> int \<Rightarrow> real \<Rightarrow> real \<Rightarrow> int \<Rightarrow> real \<Rightarrow> int \<Rightarrow> run" where
  "trial mt now initialHouseBankroll betAmount numBets houseWinProb runIndex =
     betLoop (mt (seedOf now runIndex)) betAmount numBets houseWinProb 0
       initialHouseBankroll 0 []"

text \<open>\<^verbatim>\<open>simulateSingleRun\<close> of Source.cpp returns the bankroll.\<close>

definition simulateSingleRun :: "generator \<Rightarrow> int \<Rightarrow> real \<Rightarrow> real \<Rightarrow> int \<Rightarrow> real \<Rightarrow> int \<Rightarrow> real" where
  "simulateSingleRun mt now initialHouseBankroll betAmount numBets houseWinProb runIndex =
     bankroll (trial mt now initialHouseBankroll betAmount numBets houseWinProb runIndex)"

text \<open>
  \<^verbatim>\<open>simulateSingleRun\<close> of main.cpp returns a flag instead: \<^verbatim>\<open>true\<close> from inside the
  loop, \<^verbatim>\<open>false\<close> after it. The second component counts the values drawn.
\<close>

function flagLoop :: "draws \<Rightarrow> real \<Rightarrow> int \<Rightarrow> real \<Rightarrow> int \<Rightarrow> real \<Rightarrow> nat \<Rightarrow> bool \<times> nat" where
  "flagLoop u betAmount numBets houseWinProb i currentBankroll k =
     (if i < numBets then
        (let c = (if u k < houseWinProb then currentBankroll + betAmount
                  else currentBankroll - betAmount)
         in if c < betAmount then (True, Suc k)
            else flagLoop u betAmount numBets houseWinProb (i + 1) c (Suc k))
      else (False, k))"
  by pat_completeness auto
termination
  by (relation "measure (\<lambda>(u, b, n, p, i, c, k). nat (n - i))") auto

declare flagLoop.simps [simp del]

definition simulateSingleRunFlag :: "generator \<Rightarrow> int \<Rightarrow> real \<Rightarrow> real \<Rightarrow> int \<Rightarrow> real \<Rightarrow> int \<Rightarrow> bool \<times> nat" where
  "simulateSingleRunFlag mt now initialHouseBankroll betAmount numBets houseWinProb runIndex =
     flagLoop (mt (seedOf now runIndex)) betAmount numBets houseWinProb 0
       initialHouseBankroll 0"

text \<open>
  The bankroll after \<open>k\<close> bets when no ruin check intervenes: the \<open>j\<close>-th draw wins
  \<open>betAmount\<close> when it is strictly below \<open>houseWinProb\<close> and loses it otherwise.
\<close>

primrec walk :: "draws \<Rightarrow> real \<Rightarrow> real \<Rightarrow> real \<Rightarrow> nat \<Rightarrow> real" where
  "walk u houseWinProb betAmount start 0 = start"
| "walk u houseWinProb betAmount start (Suc k) =
     (if u k < houseWinProb then walk u houseWinProb betAmount start k + betAmount
      else walk u houseWinProb betAmount start k - betAmount)"

text \<open>The number of draws among the first \<open>k\<close> that the house wins.\<close>

primrec wins :: "draws \<Rightarrow> real \<Rightarrow> nat \<Rightarrow> nat" where
  "wins u houseWinProb 0 = 0"
| "wins u houseWinProb (Suc k) =
     (if u k < houseWinProb then Suc (wins u houseWinProb k) else wins u houseWinProb k)"

text \<open>
  A generator for evaluating the model on concrete inputs. It stands where the library's
  Mersenne Twister stands in the program; its values lie in the interval from 0 (included)
  to 1 (excluded), and seeds of different parity give different sequences.
\<close>

definition sampleGenerator :: generator where
  "sampleGenerator seed k = (if even (unat seed + k) then 1 / 4 else 3 / 4)"

section \<open>Double precision\<close>

text \<open>
  The result of an arithmetic operation on doubles is the exact result rounded to the
  nearest double, ties to the one with an even significand (IEEE 754, the default
  rounding mode); every operation is rounded on its own, none is fused with another.
  \<open>normalise\<close> scales a positive real into the range of a 53-bit
  significand, stopping at the exponent of the subnormal numbers; its first argument
  bounds the number of steps, and 2200 steps reach every exponent of the format.
  Results beyond the largest double, which the source would turn into an infinity, and
  not-a-number values are outside the model.
\<close>

definition roundEven :: "real \<Rightarrow> int" where
  "roundEven x =
     (let f = \<lfloor>x\<rfloor>; d = x - real_of_int f
      in if d < 1 / 2 then f else if 1 / 2 < d then f + 1
         else if even f then f else f + 1)"

primrec normalise :: "nat \<Rightarrow> real \<Rightarrow> int \<Rightarrow> real \<times> int" where
  "normalise 0 m q = (m, q)"
| "normalise (Suc fuel) m q =
     (if 2 ^ 53 \<le> m then normalise fuel (m / 2) (q + 1)
      else if m < 2 ^ 52 \<and> - 1074 < q then normalise fuel (2 * m) (q - 1)
      else (m, q))"

definition pow2 :: "int \<Rightarrow> real" where
  "pow2 q = (if 0 \<le> q then 2 ^ nat q else 1 / 2 ^ nat (- q))"

definition rnd :: "real \<Rightarrow> real" where
  "rnd x =
     (if x = 0 then 0
      else (case normalise 2200 \<bar>x\<bar> 0 of
              (m, q) \<Rightarrow> sgn x * real_of_int (roundEven m) * pow2 q))"

definition fadd :: "real \<Rightarrow> real \<Rightarrow> real" where
  "fadd a b = rnd (a + b)"

definition fsub :: "real \<Rightarrow> real \<Rightarrow> real" where
  "fsub a b = rnd (a - b)"

definition fmul :: "real \<Rightarrow> real \<Rightarrow> real" where
  "fmul a b = rnd (a * b)"

definition fdiv :: "real \<Rightarrow> real \<Rightarrow> real" where
  "fdiv a b = rnd (a / b)"

section \<open>The library's generator\<close>

text \<open>
  \<^verbatim>\<open>std::mt19937\<close> as the C++ standard defines it: the state \<open>x\<close> starts with the seed
  and 623 words derived from it, continues with the twist recurrence, and the \<open>k\<close>-th
  output is the tempered word \<open>x (k + 624)\<close>.
\<close>

definition initStep :: "32 word \<Rightarrow> nat \<Rightarrow> 32 word" where
  "initStep prev i = 1812433253 * (prev XOR drop_bit 30 prev) + of_nat i"

primrec mtInit :: "32 word \<Rightarrow> nat \<Rightarrow> 32 word" where
  "mtInit seed 0 = seed"
| "mtInit seed (Suc i) = initStep (mtInit seed i) (Suc i)"

definition twist :: "32 word \<Rightarrow> 32 word \<Rightarrow> 32 word \<Rightarrow> 32 word" where
  "twist a b c =
     (let y = (a AND 0x80000000) OR (b AND 0x7fffffff)
      in c XOR drop_bit 1 y XOR (if bit y 0 then 0x9908b0df else 0))"

definition temper :: "32 word \<Rightarrow> 32 word" where
  "temper y0 =
     (let y1 = y0 XOR drop_bit 11 y0;
          y2 = y1 XOR (push_bit 7 y1 AND 0x9d2c5680);
          y3 = y2 XOR (push_bit 15 y2 AND 0xefc60000)
      in y3 XOR drop_bit 18 y3)"

function mtState :: "32 word \<Rightarrow> nat \<Rightarrow> 32 word" where
  "mtState seed n =
     (if n < 624 then mtInit seed n
      else twist (mtState seed (n - 624)) (mtState seed (n - 623)) (mtState seed (n - 227)))"
  by pat_completeness auto
termination
  by (relation "measure (\<lambda>(seed, n). n)") auto

declare mtState.simps [simp del]

definition mtOutput :: "32 word \<Rightarrow> nat \<Rightarrow> 32 word" where
  "mtOutput seed k = temper (mtState seed (k + 624))"

text \<open>
  \<^verbatim>\<open>std::uniform_real_distribution<double>(0.0, 1.0)\<close> over that generator, as libstdc++
  computes it through \<^verbatim>\<open>generate_canonical\<close>: two outputs per value, the second one
  the high part, their sum rounded to a double and divided by \<open>2 ^ 64\<close>, and the
  largest double below 1 in place of a quotient that reaches 1.
\<close>

definition canonical :: "32 word \<Rightarrow> 32 word \<Rightarrow> real" where
  "canonical lo hi =
     (let r = fadd (real (unat lo)) (real (unat hi) * 2 ^ 32) / 2 ^ 64
      in if 1 \<le> r then 1 - 1 / 2 ^ 53 else r)"

definition mt19937 :: generator where
  "mt19937 seed k = canonical (mtOutput seed (2 * k)) (mtOutput seed (2 * k + 1))"

section \<open>The histogram of surviving bankrolls\<close>

text \<open>
  \<^verbatim>\<open>std::map<double, int>\<close> keeps its entries ordered by key, one entry per key. It is
  modelled as a list of pairs in ascending key order. \<open>mapPut\<close> is \<^verbatim>\<open>bins[key] = v\<close>,
  \<^const>\<open>map_of\<close> is \<^verbatim>\<open>bins.find(key)\<close>, \<open>mapBump\<close> is \<^verbatim>\<open>it->second++\<close> at the entry
  found, and \<open>bumpLast\<close> is the same at \<^verbatim>\<open>bins.rbegin()\<close>.
\<close>

fun mapPut :: "real \<Rightarrow> int \<Rightarrow> (real \<times> int) list \<Rightarrow> (real \<times> int) list" where
  "mapPut k v [] = [(k, v)]"
| "mapPut k v ((k', v') # rest) =
     (if k < k' then (k, v) # (k', v') # rest
      else if k = k' then (k, v) # rest
      else (k', v') # mapPut k v rest)"

fun mapBump :: "real \<Rightarrow> (real \<times> int) list \<Rightarrow> (real \<times> int) list" where
  "mapBump k [] = []"
| "mapBump k ((k', v') # rest) =
     (if k = k' then (k', v' + 1) # rest else (k', v') # mapBump k rest)"

fun bumpLast :: "(real \<times> int) list \<Rightarrow> (real \<times> int) list" where
  "bumpLast [] = []"
| "bumpLast [(k, v)] = [(k, v + 1)]"
| "bumpLast (e # rest) = e # bumpLast rest"

text \<open>\<^verbatim>\<open>std::numeric_limits<double>::max()\<close>; \<^verbatim>\<open>lowest()\<close> is its negation.\<close>

definition DBL_MAX :: real where
  "DBL_MAX = (2 ^ 53 - 1) * 2 ^ 971"

text \<open>
  The first loop of \<^verbatim>\<open>printBankrollHistogram\<close>: the state is
  \<open>(survivingBankrolls, ruinCount, minBankroll, maxBankroll)\<close>.
\<close>

fun splitLoop :: "real \<Rightarrow> real list \<Rightarrow> real list \<times> int \<times> real \<times> real \<Rightarrow> real list \<times> int \<times> real \<times> real" where
  "splitLoop betAmount [] st = st"
| "splitLoop betAmount (finalBankroll # rest) (surv, rc, mn, mx) =
     (if finalBankroll < betAmount then splitLoop betAmount rest (surv, rc + 1, mn, mx)
      else splitLoop betAmount rest
             (surv @ [finalBankroll], rc,
              (if finalBankroll < mn then finalBankroll else mn),
              (if finalBankroll > mx then finalBankroll else mx)))"

text \<open>
  The loop that creates the bins: \<^verbatim>\<open>bins[minBankroll + i * binWidth] =
      0\<close>. The
  product and the sum are rounded, so two keys can coincide; the later assignment then
  finds the entry of the earlier one.
\<close>

definition initBins :: "real \<Rightarrow> real \<Rightarrow> int \<Rightarrow> (real \<times> int) list" where
  "initBins mn w numBins =
     fold (\<lambda>i bs. mapPut (fadd mn (fmul (real i) w)) 0 bs) [0..<nat numBins] []"

text \<open>
  Incrementing through \<^verbatim>\<open>bins.rbegin()\<close> when the map is empty is undefined behaviour;
  the model returns it as a fault. \<open>LengthError\<close> is the exception that
  \<^verbatim>\<open>vector::reserve\<close> throws for a size above \<^verbatim>\<open>max_size()\<close>; nothing catches it, so
  the program terminates abnormally.
\<close>

datatype fault = EmptyMapDereference | LengthError

text \<open>
  The loop that fills the bins; the state is \<open>(bins, maxBinCount)\<close>. The test
  \<^verbatim>\<open>bankroll == maxBankroll\<close> comes before the lookup of \<open>binKey\<close>, as in the source,
  and a key that \<^verbatim>\<open>find\<close> does not meet leaves the bins as they are. The difference,
  the quotient, the product and the sum are each rounded; \<^verbatim>\<open>std::floor\<close> is exact.
\<close>

fun populate :: "real \<Rightarrow> real \<Rightarrow> real \<Rightarrow> real list \<Rightarrow> (real \<times> int) list \<times> int \<Rightarrow> fault + (real \<times> int) list \<times> int" where
  "populate mn mx w [] st = Inr st"
| "populate mn mx w (x # rest) (bs, maxBinCount) =
     (let binKey = (if w = 0 then mn
                    else fadd mn (fmul (real_of_int \<lfloor>fdiv (fsub x mn) w\<rfloor>) w))
      in if x = mx then
           (if bs = [] then Inl EmptyMapDereference
            else let c = snd (last bs) + 1
                 in populate mn mx w rest
                      (bumpLast bs, if c > maxBinCount then c else maxBinCount))
         else (case map_of bs binKey of
                 None \<Rightarrow> populate mn mx w rest (bs, maxBinCount)
               | Some v \<Rightarrow>
                   let c = v + 1
                   in populate mn mx w rest
                        (mapBump binKey bs, if c > maxBinCount then c else maxBinCount)))"

text \<open>The value that the loop above gives \<open>binKey\<close> for the bankroll \<open>x\<close>.\<close>

definition binKeyOf :: "real \<Rightarrow> real \<Rightarrow> real \<Rightarrow> real" where
  "binKeyOf mn w x =
     (if w = 0 then mn else fadd mn (fmul (real_of_int \<lfloor>fdiv (fsub x mn) w\<rfloor>) w))"

record histogram =
  numSurvivors :: int
  ruinedRuns :: int
  minBankroll :: real
  maxBankroll :: real
  binWidth :: real
  bins :: "(real \<times> int) list"
  maxBinCount :: int

text \<open>
  \<^verbatim>\<open>printBankrollHistogram\<close> up to the printing: \<open>None\<close> is the early return after
  "No surviving runs to chart". The parameter \<open>totalRuns\<close> is not used by the source.
  With \<open>numBins = 0\<close> the source divides a double by zero, which the model does not
  follow (no bin is created then, and the first survivor equal to the maximum meets
  the empty map).
\<close>

definition printBankrollHistogram :: "real list \<Rightarrow> real \<Rightarrow> int \<Rightarrow> int \<Rightarrow> fault + histogram option" where
  "printBankrollHistogram finalBankrolls betAmount numBins totalRuns =
     (case splitLoop betAmount finalBankrolls ([], 0, DBL_MAX, - DBL_MAX) of
        (surv, rc, mn, mx) \<Rightarrow>
          if int (length surv) = 0 then Inr None
          else
            let w0 = fdiv (fsub mx mn) (real_of_int numBins);
                w = (if w0 = 0 then 100 else w0)
            in (case populate mn mx w surv (initBins mn w numBins, 0) of
                  Inl e \<Rightarrow> Inl e
                | Inr (bs, m) \<Rightarrow>
                    Inr (Some \<lparr>numSurvivors = int (length surv), ruinedRuns = rc,
                               minBankroll = mn, maxBankroll = mx, binWidth = w,
                               bins = bs, maxBinCount = m\<rparr>)))"

text \<open>
  The lines of the chart, one per bin in key order:
  \<open>(rangeStart, rangeEnd, count, percentage)\<close>.
\<close>

definition chartRows :: "histogram \<Rightarrow> (real \<times> real \<times> int \<times> real) list" where
  "chartRows h =
     map (\<lambda>(rangeStart, count).
            (rangeStart, fadd rangeStart (binWidth h), count,
             (if numSurvivors h > 0
              then fmul (fdiv (real_of_int count) (real_of_int (numSurvivors h))) 100
              else 0)))
         (bins h)"

section \<open>The campaign drivers\<close>

text \<open>
  The constants at the head of \<^verbatim>\<open>main\<close>. The drivers below take them as a parameter;
  \<open>SourceConfig\<close> and \<open>mainConfig\<close> are the values the two files give them
  (main.cpp has no histogram, so its bin count is never read).
\<close>

record config =
  HOUSE_WIN_PROB :: real
  BET_AMOUNT :: real
  BETS_PER_RUN :: int
  TOTAL_RUNS :: int
  HISTOGRAM_BINS :: int
  bankrollsToTest :: "real list"

definition SourceConfig :: config where
  "SourceConfig = \<lparr>HOUSE_WIN_PROB = 5 / 9, BET_AMOUNT = 25, BETS_PER_RUN = 100,
     TOTAL_RUNS = 1000000, HISTOGRAM_BINS = 15, bankrollsToTest = [500]\<rparr>"

definition mainConfig :: config where
  "mainConfig = \<lparr>HOUSE_WIN_PROB = 5 / 9, BET_AMOUNT = 25, BETS_PER_RUN = 1000000,
     TOTAL_RUNS = 10000, HISTOGRAM_BINS = 0,
     bankrollsToTest = [500, 1000, 2500, 5000, 7500, 10000, 15000, 20000]\<rparr>"

text \<open>
  The wall clock is an input of the program: \<open>clock t\<close> is the value that the \<open>t\<close>-th
  reading of \<^verbatim>\<open>system_clock::now()\<close> in an execution returns. Every call of
  \<^verbatim>\<open>simulateSingleRun\<close> reads it once, so the drivers count the readings.

  The inner loop of \<^verbatim>\<open>main\<close> in Source.cpp; it returns
  \<open>(ruinCount, finalBankrolls, readings)\<close>.
\<close>

function trialsLoop :: "generator \<Rightarrow> (nat \<Rightarrow> int) \<Rightarrow> config \<Rightarrow> real \<Rightarrow> int \<Rightarrow> nat \<Rightarrow> int \<Rightarrow> real list \<Rightarrow> int \<times> real list \<times> nat" where
  "trialsLoop mt clock cfg startBankroll i t ruinCount finalBankrolls =
     (if i < TOTAL_RUNS cfg then
        (let finalBankroll =
               simulateSingleRun mt (clock t) startBankroll (BET_AMOUNT cfg)
                 (BETS_PER_RUN cfg) (HOUSE_WIN_PROB cfg) i
         in trialsLoop mt clock cfg startBankroll (i + 1) (Suc t)
              (if finalBankroll < BET_AMOUNT cfg then ruinCount + 1 else ruinCount)
              (finalBankrolls @ [finalBankroll]))
      else (ruinCount, finalBankrolls, t))"
  by pat_completeness auto
termination
  by (relation "measure (\<lambda>(mt, clock, cfg, s, i, t, r, f). nat (TOTAL_RUNS cfg - i))") auto

declare trialsLoop.simps [simp del]

record report =
  startBankroll :: real
  ruinCount :: int
  ruinProbability :: real
  finalBankrolls :: "real list"
  chart :: "histogram option"

text \<open>
  One pass of the outer loop of \<^verbatim>\<open>main\<close> in Source.cpp, from reading \<open>t\<close> on.
  \<^verbatim>\<open>finalBankrolls.reserve(TOTAL_RUNS)\<close> converts the \<^verbatim>\<open>int\<close> to an unsigned size, so a
  negative \<open>TOTAL_RUNS\<close> asks for more than \<^verbatim>\<open>max_size()\<close> elements and throws; for the
  other values the memory is taken to suffice. The quotient \<open>ruinProbability\<close> is the
  exact quotient, which the source rounds to a double, and it follows the source for
  \<open>TOTAL_RUNS\<close> other than 0 only.
\<close>

definition testBankroll :: "generator \<Rightarrow> (nat \<Rightarrow> int) \<Rightarrow> config \<Rightarrow> real \<Rightarrow> nat \<Rightarrow> fault + report \<times> nat" where
  "testBankroll mt clock cfg start t =
     (if TOTAL_RUNS cfg < 0 then Inl LengthError
      else
        (case trialsLoop mt clock cfg start 0 t 0 [] of
           (rc, finals, t') \<Rightarrow>
             (case printBankrollHistogram finals (BET_AMOUNT cfg) (HISTOGRAM_BINS cfg)
                     (TOTAL_RUNS cfg) of
                Inl e \<Rightarrow> Inl e
              | Inr h \<Rightarrow>
                  Inr (\<lparr>startBankroll = start, ruinCount = rc,
                        ruinProbability = real_of_int rc / real_of_int (TOTAL_RUNS cfg),
                        finalBankrolls = finals, chart = h\<rparr>, t'))))"

fun testBankrolls :: "generator \<Rightarrow> (nat \<Rightarrow> int) \<Rightarrow> config \<Rightarrow> real list \<Rightarrow> nat \<Rightarrow> fault + report list" where
  "testBankrolls mt clock cfg [] t = Inr []"
| "testBankrolls mt clock cfg (start # rest) t =
     (case testBankroll mt clock cfg start t of
        Inl e \<Rightarrow> Inl e
      | Inr (r, t') \<Rightarrow>
          (case testBankrolls mt clock cfg rest t' of
             Inl e \<Rightarrow> Inl e
           | Inr rs \<Rightarrow> Inr (r # rs)))"

text \<open>
  \<^verbatim>\<open>main\<close> of Source.cpp: the reports in the order printed and the value returned,
  which is the process's exit code. No statement of \<^verbatim>\<open>main\<close> inspects a constant
  before the loops start, and its only \<^verbatim>\<open>return\<close> is \<^verbatim>\<open>return 0\<close>.
\<close>

definition main_Source :: "generator \<Rightarrow> (nat \<Rightarrow> int) \<Rightarrow> config \<Rightarrow> fault + report list \<times> int" where
  "main_Source mt clock cfg =
     (case testBankrolls mt clock cfg (bankrollsToTest cfg) 0 of
        Inl e \<Rightarrow> Inl e
      | Inr rs \<Rightarrow> Inr (rs, 0))"

text \<open>
  main.cpp: the inner loop counts in \<open>rc\<close> the runs whose flag is set; a line of the table is
  \<open>(startBankroll, ruinCount, ruinProbability)\<close>.
\<close>

function flagsLoop :: "generator \<Rightarrow> (nat \<Rightarrow> int) \<Rightarrow> config \<Rightarrow> real \<Rightarrow> int \<Rightarrow> nat \<Rightarrow> int \<Rightarrow> int \<times> nat" where
  "flagsLoop mt clock cfg start i t rc =
     (if i < TOTAL_RUNS cfg then
        flagsLoop mt clock cfg start (i + 1) (Suc t)
          (if fst (simulateSingleRunFlag mt (clock t) start (BET_AMOUNT cfg)
                     (BETS_PER_RUN cfg) (HOUSE_WIN_PROB cfg) i)
           then rc + 1 else rc)
      else (rc, t))"
  by pat_completeness auto
termination
  by (relation "measure (\<lambda>(mt, clock, cfg, s, i, t, r). nat (TOTAL_RUNS cfg - i))") auto

declare flagsLoop.simps [simp del]

fun tableLines :: "generator \<Rightarrow> (nat \<Rightarrow> int) \<Rightarrow> config \<Rightarrow> real list \<Rightarrow> nat \<Rightarrow> (real \<times> int \<times> real) list" where
  "tableLines mt clock cfg [] t = []"
| "tableLines mt clock cfg (start # rest) t =
     (case flagsLoop mt clock cfg start 0 t 0 of
        (rc, t') \<Rightarrow>
          (start, rc, real_of_int rc / real_of_int (TOTAL_RUNS cfg))
            # tableLines mt clock cfg rest t')"

definition main_main :: "generator \<Rightarrow> (nat \<Rightarrow> int) \<Rightarrow> config \<Rightarrow> (real \<times> int \<times> real) list \<times> int" where
  "main_main mt clock cfg = (tableLines mt clock cfg (bankrollsToTest cfg) 0, 0)"

text \<open>
  The call that the inner loop makes \<open>j\<close> iterations after the one with index \<open>i\<close>
  and reading \<open>t\<close>: trial index \<open>i + j\<close>, clock reading \<open>t + j\<close>.
\<close>

definition trialAt :: "generator \<Rightarrow> (nat \<Rightarrow> int) \<Rightarrow> config \<Rightarrow> real \<Rightarrow> nat \<Rightarrow> int \<Rightarrow> nat \<Rightarrow> real" where
  "trialAt mt clock cfg start t i j =
     simulateSingleRun mt (clock (t + j)) start (BET_AMOUNT cfg) (BETS_PER_RUN cfg)
       (HOUSE_WIN_PROB cfg) (i + int j)"

text \<open>
  The number of surviving runs that a report shows: that of its chart, and none when
  the chart is replaced by the line "No surviving runs to chart".
\<close>

definition survivingCount :: "report \<Rightarrow> int" where
  "survivingCount r = (case chart r of None \<Rightarrow> 0 | Some h \<Rightarrow> numSurvivors h)"

text \<open>
  Inputs for evaluating the drivers: a clock, a second clock \<open>2 ^ 32\<close> ticks ahead of
  it, clocks that advance by one tick per reading from a given start, a small
  configuration, and the configuration of Source.cpp cut down to one run of one bet
  from a bankroll of 25.
\<close>

definition sampleClock :: "nat \<Rightarrow> int" where
  "sampleClock t = 1000 + 2 * int t"

definition tickClock :: "int \<Rightarrow> nat \<Rightarrow> int" where
  "tickClock start t = start + int t"

definition oneBetConfig :: config where
  "oneBetConfig = SourceConfig\<lparr>BETS_PER_RUN := 1, TOTAL_RUNS := 1, bankrollsToTest :=
      [25]\<rparr>"

definition wrappedClock :: "nat \<Rightarrow> int" where
  "wrappedClock t = sampleClock t + 2 ^ 32"

definition sampleConfig :: config where
  "sampleConfig = \<lparr>HOUSE_WIN_PROB = 1 / 2, BET_AMOUNT = 25, BETS_PER_RUN = 3,
     TOTAL_RUNS = 3, HISTOGRAM_BINS = 3, bankrollsToTest = [40, 50]\<rparr>"

section \<open>Properties of the trial engine\<close>

lemma betLoop_run:
  assumes "0 \<le> i" "i \<le> N" "k = nat i" "c = walk u p b B0 k"
    and "hist = map (walk u p b B0) [0..<k]"
    and "\<forall>j. 1 \<le> j \<and> j \<le> k \<longrightarrow> b \<le> walk u p b B0 j"
  shows "let r = betLoop u b N p i c k hist; T = drawn r in
           T \<le> nat N \<and> bankroll r = walk u p b B0 T
           \<and> staked r = map (walk u p b B0) [0..<T]
           \<and> (\<forall>j. 1 \<le> j \<and> j < T \<longrightarrow> b \<le> walk u p b B0 j)
           \<and> (ruined r \<longleftrightarrow> 1 \<le> T \<and> walk u p b B0 T < b)
           \<and> (\<not> ruined r \<longrightarrow> T = nat N)"
  using assms
proof (induction u b N p i c k hist rule: betLoop.induct)
  case (1 u b N p i c k hist)
  show ?case
  proof (cases "i < N")
    case False
    with "1.prems" have "i = N" by simp
    with "1.prems" False show ?thesis
      by (subst betLoop.simps) (auto simp: Let_def)
  next
    case True
    define c' where "c' = (if u k < p then c + b else c - b)"
    have c': "c' = walk u p b B0 (Suc k)"
      using "1.prems" by (simp add: c'_def)
    show ?thesis
    proof (cases "c' < b")
      case ruin: True
      have "betLoop u b N p i c k hist =
              \<lparr>bankroll = c', drawn = Suc k, staked = hist @ [c], ruined = True\<rparr>"
        using True ruin by (subst betLoop.simps) (simp add: c'_def Let_def)
      moreover have "Suc k \<le> nat N" using True "1.prems" by simp
      ultimately show ?thesis
        using "1.prems" c' ruin by (auto simp: Let_def)
    next
      case ok: False
      have step: "betLoop u b N p i c k hist = betLoop u b N p (i + 1) c' (Suc k) (hist @ [c])"
        using True ok by (subst betLoop.simps) (simp add: c'_def Let_def)
      have inv: "\<forall>j. 1 \<le> j \<and> j \<le> Suc k \<longrightarrow> b \<le> walk u p b B0 j"
      proof (intro allI impI)
        fix j assume j: "1 \<le> j \<and> j \<le> Suc k"
        show "b \<le> walk u p b B0 j"
        proof (cases "j = Suc k")
          case True
          then show ?thesis using ok c' by simp
        next
          case False
          with j have "1 \<le> j \<and> j \<le> k" by simp
          then show ?thesis using "1.prems" by blast
        qed
      qed
      have "let r = betLoop u b N p (i + 1) c' (Suc k) (hist @ [c]); T = drawn r in
           T \<le> nat N \<and> bankroll r = walk u p b B0 T
           \<and> staked r = map (walk u p b B0) [0..<T]
           \<and> (\<forall>j. 1 \<le> j \<and> j < T \<longrightarrow> b \<le> walk u p b B0 j)
           \<and> (ruined r \<longleftrightarrow> 1 \<le> T \<and> walk u p b B0 T < b)
           \<and> (\<not> ruined r \<longrightarrow> T = nat N)"
      proof (rule "1.IH" [OF True c'_def ok])
        show "0 \<le> i + 1" using "1.prems" by simp
        show "i + 1 \<le> N" using True by simp
        show "Suc k = nat (i + 1)" using "1.prems" by simp
        show "c' = walk u p b B0 (Suc k)" by (rule c')
        show "hist @ [c] = map (walk u p b B0) [0..<Suc k]" using "1.prems" by simp
        show "\<forall>j. 1 \<le> j \<and> j \<le> Suc k \<longrightarrow> b \<le> walk u p b B0 j" by (rule inv)
      qed
      then show ?thesis by (simp only: step)
    qed
  qed
qed

lemma trial_run:
  "let u = mt (seedOf now runIndex); r = trial mt now B0 b N p runIndex; T = drawn r in
     T \<le> nat N \<and> bankroll r = walk u p b B0 T
     \<and> staked r = map (walk u p b B0) [0..<T]
     \<and> (\<forall>j. 1 \<le> j \<and> j < T \<longrightarrow> b \<le> walk u p b B0 j)
     \<and> (ruined r \<longleftrightarrow> 1 \<le> T \<and> walk u p b B0 T < b)
     \<and> (\<not> ruined r \<longrightarrow> T = nat N)"
proof (cases "0 \<le> N")
  case True
  have "let r = betLoop (mt (seedOf now runIndex)) b N p 0 B0 0 []; T = drawn r in
     T \<le> nat N \<and> bankroll r = walk (mt (seedOf now runIndex)) p b B0 T
     \<and> staked r = map (walk (mt (seedOf now runIndex)) p b B0) [0..<T]
     \<and> (\<forall>j. 1 \<le> j \<and> j < T \<longrightarrow> b \<le> walk (mt (seedOf now runIndex)) p b B0 j)
     \<and> (ruined r \<longleftrightarrow> 1 \<le> T \<and> walk (mt (seedOf now runIndex)) p b B0 T < b)
     \<and> (\<not> ruined r \<longrightarrow> T = nat N)"
    by (rule betLoop_run [where ?B0.0 = B0]) (use True in simp_all)
  then show ?thesis unfolding trial_def Let_def .
next
  case False
  then have "betLoop (mt (seedOf now runIndex)) b N p 0 B0 0 [] =
      \<lparr>bankroll = B0, drawn = 0, staked = [], ruined = False\<rparr>"
    by (subst betLoop.simps) simp
  with False show ?thesis unfolding trial_def Let_def by simp
qed


lemma walk_wins:
  "walk u p b B0 k = B0 + (2 * real (wins u p k) - real k) * b \<and> wins u p k \<le> k"
proof (induction k)
  case 0
  show ?case by simp
next
  case (Suc k)
  then show ?case by (simp add: algebra_simps)
qed

lemma flagLoop_betLoop:
  "flagLoop u b N p i c k =
      (ruined (betLoop u b N p i c k hist), drawn (betLoop u b N p i c k hist))"
proof (induction u b N p i c k hist rule: betLoop.induct)
  case (1 u b N p i c k hist)
  show ?case
  proof (cases "i < N")
    case False
    then show ?thesis
      by (subst flagLoop.simps, subst (1 2) betLoop.simps) simp
  next
    case True
    define c' where "c' = (if u k < p then c + b else c - b)"
    show ?thesis
    proof (cases "c' < b")
      case ruin: True
      with True show ?thesis
        by (subst flagLoop.simps, subst (1 2) betLoop.simps) (simp add: c'_def Let_def)
    next
      case ok: False
      have "flagLoop u b N p (i + 1) c' (Suc k) =
        (ruined (betLoop u b N p (i + 1) c' (Suc k) (hist @ [c])),
         drawn (betLoop u b N p (i + 1) c' (Suc k) (hist @ [c])))"
        by (rule "1.IH" [OF True c'_def ok])
      moreover have "flagLoop u b N p i c k = flagLoop u b N p (i + 1) c' (Suc k)"
        using True ok by (subst flagLoop.simps) (simp add: c'_def Let_def)
      moreover have "betLoop u b N p i c k hist = betLoop u b N p (i + 1) c' (Suc k) (hist @ [c])"
        using True ok by (subst betLoop.simps) (simp add: c'_def Let_def)
      ultimately show ?thesis by simp
    qed
  qed
qed


lemma trialsLoop_run:
  "trialsLoop mt clock cfg start i t rc fs =
     (rc + int (length (filter (\<lambda>x. x < BET_AMOUNT cfg)
                   (map (trialAt mt clock cfg start t i) [0..<nat (TOTAL_RUNS cfg - i)]))),
      fs @ map (trialAt mt clock cfg start t i) [0..<nat (TOTAL_RUNS cfg - i)],
      t + nat (TOTAL_RUNS cfg - i))"
proof (induction mt clock cfg start i t rc fs rule: trialsLoop.induct)
  case (1 mt clock cfg start i t rc fs)
  show ?case
  proof (cases "i < TOTAL_RUNS cfg")
    case False
    then show ?thesis by (subst trialsLoop.simps) simp
  next
    case True
    define f where "f = trialAt mt clock cfg start t i 0"
    have f: "f = simulateSingleRun mt (clock t) start (BET_AMOUNT cfg) (BETS_PER_RUN cfg)
                   (HOUSE_WIN_PROB cfg) i"
      by (simp add: f_def trialAt_def)
    have n: "nat (TOTAL_RUNS cfg - i) = Suc (nat (TOTAL_RUNS cfg - (i + 1)))"
      using True by simp
    have sh: "map (trialAt mt clock cfg start t i) [0..<nat (TOTAL_RUNS cfg - i)] =
              f # map (trialAt mt clock cfg start (Suc t) (i + 1))
                  [0..<nat (TOTAL_RUNS cfg - (i + 1))]"
      unfolding n upt_conv_Cons [OF zero_less_Suc] map_Suc_upt [symmetric]
      by (simp add: f_def trialAt_def add.assoc)
    have step: "trialsLoop mt clock cfg start i t rc fs =
        trialsLoop mt clock cfg start (i + 1) (Suc t) (if f < BET_AMOUNT cfg then rc + 1 else rc) (fs @ [f])"
      using True by (subst trialsLoop.simps) (simp add: f Let_def)
    show ?thesis
      unfolding step "1.IH" [OF True f] sh using n by simp
  qed
qed

subsection \<open>Sample runs\<close>

lemma sample_run_a:
  "trial sampleGenerator 0 2 1 2 (1 / 2) 0 = \<lparr>bankroll = 2, drawn = 2, staked =
      [2, 3], ruined = False\<rparr>"
  by code_simp

lemma sample_run_b:
  "trial sampleGenerator 1 0 25 1 (1 / 2) 0 = \<lparr>bankroll = - 25, drawn = 1, staked =
      [0], ruined = True\<rparr>"
  by code_simp

lemma sample_run_c:
  "trial sampleGenerator 1 2 1 3 (1 / 8) 0 = \<lparr>bankroll = 0, drawn = 2, staked =
      [2, 1], ruined = True\<rparr>"
  by code_simp



lemma trial_facts:
  shows "drawn (trial mt now B0 b N p runIndex) \<le> nat N"
    and "bankroll (trial mt now B0 b N p runIndex) =
           walk (mt (seedOf now runIndex)) p b B0 (drawn (trial mt now B0 b N p runIndex))"
    and "staked (trial mt now B0 b N p runIndex) =
           map (walk (mt (seedOf now runIndex)) p b B0)
               [0..<drawn (trial mt now B0 b N p runIndex)]"
    and "\<forall>j. 1 \<le> j \<and> j < drawn (trial mt now B0 b N p runIndex) \<longrightarrow>
           b \<le> walk (mt (seedOf now runIndex)) p b B0 j"
    and "ruined (trial mt now B0 b N p runIndex) \<longleftrightarrow>
           1 \<le> drawn (trial mt now B0 b N p runIndex) \<and>
           walk (mt (seedOf now runIndex)) p b B0 (drawn (trial mt now B0 b N p runIndex)) < b"
    and "\<not> ruined (trial mt now B0 b N p runIndex) \<longrightarrow>
           drawn (trial mt now B0 b N p runIndex) = nat N"
  using trial_run [of mt now runIndex B0 b N p] unfolding Let_def
  by blast+

section \<open>The claims about the trial engine\<close>



lemma ruined_iff_below:
  assumes "1 \<le> N"
  shows "bankroll (trial mt now B0 b N p runIndex) < b \<longleftrightarrow> ruined (trial mt now B0 b N p runIndex)"
proof -
  define r where "r = trial mt now B0 b N p runIndex"
  define w where "w = walk (mt (seedOf now runIndex)) p b B0"
  note f = trial_facts [of mt now B0 b N p runIndex, folded r_def w_def]
  have "bankroll r < b \<longleftrightarrow> ruined r"
  proof
    assume lt: "bankroll r < b"
    show "ruined r"
    proof (rule ccontr)
      assume nr: "\<not> ruined r"
      with f(6) have "drawn r = nat N" by blast
      with assms have "1 \<le> drawn r" by simp
      with nr f(5) have "\<not> w (drawn r) < b" by blast
      with lt f(2) show False by simp
    qed
  next
    assume "ruined r"
    with f(5) have "w (drawn r) < b" by blast
    with f(2) show "bankroll r < b" by simp
  qed
  then show ?thesis unfolding r_def .
qed

text \<open>
  Claim C3. For a run of at least one bet, the bankroll returned is strictly below the
  bet amount exactly when the run left through the ruin exit inside the loop; a run
  that returns at least the bet amount made exactly \<open>numBets\<close> bets; and the inner loop
  of \<^verbatim>\<open>main\<close> leaves in \<open>ruinCount\<close> the number of collected final bankrolls that are
  strictly below the bet amount, the collected bankrolls being the results of the
  \<open>TOTAL_RUNS\<close> calls.
\<close>

theorem ruin_classification:
  assumes "1 \<le> N"
  shows "(simulateSingleRun mt now B0 b N p runIndex < b
            \<longleftrightarrow> ruined (trial mt now B0 b N p runIndex))
       \<and> (b \<le> simulateSingleRun mt now B0 b N p runIndex
            \<longrightarrow> length (staked (trial mt now B0 b N p runIndex)) = nat N
              \<and> drawn (trial mt now B0 b N p runIndex) = nat N)
       \<and> fst (trialsLoop mt clock cfg start 0 t 0 [])
           = int (length (filter (\<lambda>x. x < BET_AMOUNT cfg)
                    (fst (snd (trialsLoop mt clock cfg start 0 t 0 [])))))
       \<and> fst (snd (trialsLoop mt clock cfg start 0 t 0 []))
           = map (trialAt mt clock cfg start t 0) [0..<nat (TOTAL_RUNS cfg)]"
proof -
  define r where "r = trial mt now B0 b N p runIndex"
  define w where "w = walk (mt (seedOf now runIndex)) p b B0"
  note f = trial_facts [of mt now B0 b N p runIndex, folded r_def w_def]
  have len: "length (staked r) = drawn r" unfolding f(3) by simp
  have 1: "bankroll r < b \<longleftrightarrow> ruined r"
    unfolding r_def by (rule ruined_iff_below [OF assms])
  have 2: "b \<le> bankroll r \<longrightarrow> length (staked r) = nat N \<and> drawn r = nat N"
  proof
    assume "b \<le> bankroll r"
    with 1 have "\<not> ruined r" by auto
    with f(6) len show "length (staked r) = nat N \<and> drawn r = nat N" by simp
  qed
  have 3: "fst (trialsLoop mt clock cfg start 0 t 0 [])
           = int (length (filter (\<lambda>x. x < BET_AMOUNT cfg)
                    (fst (snd (trialsLoop mt clock cfg start 0 t 0 [])))))"
    and 4: "fst (snd (trialsLoop mt clock cfg start 0 t 0 []))
           = map (trialAt mt clock cfg start t 0) [0..<nat (TOTAL_RUNS cfg)]"
    unfolding trialsLoop_run [of mt clock cfg start 0 t 0 "[]"] by simp_all
  show ?thesis
    unfolding simulateSingleRun_def r_def [symmetric]
    by (intro conjI 1 2 3 4)
qed

theorem ruin_classification_witness:
  "(1::int) \<le> 2
   \<and> \<not> simulateSingleRun sampleGenerator 0 2 1 2 (1 / 2) 0 < 1
   \<and> \<not> ruined (trial sampleGenerator 0 2 1 2 (1 / 2) 0)
   \<and> (1::real) \<le> simulateSingleRun sampleGenerator 0 2 1 2 (1 / 2) 0
   \<and> length (staked (trial sampleGenerator 0 2 1 2 (1 / 2) 0)) = nat 2
   \<and> drawn (trial sampleGenerator 0 2 1 2 (1 / 2) 0) = nat 2"
proof -
  have h: "(1::int) \<le> 2" by simp
  have v: "simulateSingleRun sampleGenerator 0 2 1 2 (1 / 2) 0 = 2"
    unfolding simulateSingleRun_def sample_run_a by simp
  show ?thesis
    using ruin_classification [OF h, of sampleGenerator 0 2 1 "1 / 2" 0] h
    unfolding v by simp
qed

text \<open>
  Claim C4 says that no bet is made while the bankroll is strictly below the bet amount,
  also when the initial bankroll is. The loop tests the bankroll after a bet only, so
  the first bet is made whatever the initial bankroll: from 0 with a bet amount of 25
  the one bet of the run is made at bankroll 0.
\<close>

theorem bet_below_stake_counterexample:
  "\<not> (\<forall>x \<in> set (staked (trial sampleGenerator 1 0 25 1 (1 / 2) 0)). \<not> x < 25)"
  unfolding sample_run_b by simp

text \<open>
  Claim C4, amended. Every bet but the first is made with a bankroll of at least the bet
  amount, and so is the first when the initial bankroll is at least the bet amount; a
  run of at least one bet makes its first bet with the initial bankroll, whatever that
  is.
\<close>

theorem later_bets_covered:
  "(\<forall>j < length (staked (trial mt now B0 b N p runIndex)).
      (1 \<le> j \<or> b \<le> B0) \<longrightarrow> b \<le> staked (trial mt now B0 b N p runIndex) ! j)
   \<and> (1 \<le> N \<longrightarrow> staked (trial mt now B0 b N p runIndex) \<noteq> []
                 \<and> staked (trial mt now B0 b N p runIndex) ! 0 = B0)"
proof -
  define r where "r = trial mt now B0 b N p runIndex"
  define w where "w = walk (mt (seedOf now runIndex)) p b B0"
  note f = trial_facts [of mt now B0 b N p runIndex, folded r_def w_def]
  have 1: "\<forall>j < length (staked r). (1 \<le> j \<or> b \<le> B0) \<longrightarrow> b \<le> staked r ! j"
  proof (intro allI impI)
    fix j
    assume j: "j < length (staked r)" and c: "1 \<le> j \<or> b \<le> B0"
    from j have jT: "j < drawn r" unfolding f(3) by simp
    then have nth: "staked r ! j = w j" unfolding f(3) by simp
    have "b \<le> w j"
    proof (cases "1 \<le> j")
      case True
      with jT f(4) show ?thesis by blast
    next
      case False
      then have "j = 0" by simp
      moreover from False c have "b \<le> B0" by blast
      ultimately show ?thesis by (simp add: w_def)
    qed
    with nth show "b \<le> staked r ! j" by simp
  qed
  have 2: "1 \<le> N \<longrightarrow> staked r \<noteq> [] \<and> staked r ! 0 = B0"
  proof
    assume N: "1 \<le> N"
    have T: "1 \<le> drawn r"
    proof (cases "ruined r")
      case True
      with f(5) show ?thesis by blast
    next
      case False
      with f(6) have "drawn r = nat N" by blast
      with N show ?thesis by simp
    qed
    then have "staked r \<noteq> []" unfolding f(3) by simp
    moreover have "staked r ! 0 = w 0" using T unfolding f(3) by simp
    ultimately show "staked r \<noteq> [] \<and> staked r ! 0 = B0" by (simp add: w_def)
  qed
  from 1 2 show ?thesis unfolding r_def by blast
qed

theorem later_bets_covered_witness:
  "length (staked (trial sampleGenerator 1 2 1 3 (1 / 8) 0)) = 2
   \<and> (1::real) \<le> 2
   \<and> 1 \<le> staked (trial sampleGenerator 1 2 1 3 (1 / 8) 0) ! 0
   \<and> 1 \<le> staked (trial sampleGenerator 1 2 1 3 (1 / 8) 0) ! 1
   \<and> (1::int) \<le> 1
   \<and> staked (trial sampleGenerator 1 0 25 1 (1 / 2) 0) \<noteq> []
   \<and> staked (trial sampleGenerator 1 0 25 1 (1 / 2) 0) ! 0 = 0"
proof -
  have l: "length (staked (trial sampleGenerator 1 2 1 3 (1 / 8) 0)) = 2"
    unfolding sample_run_c by simp
  note t = later_bets_covered [of sampleGenerator 1 2 1 3 "1 / 8" 0]
  from t have a: "\<forall>j < length (staked (trial sampleGenerator 1 2 1 3 (1 / 8) 0)).
      (1 \<le> j \<or> (1::real) \<le> 2) \<longrightarrow> 1 \<le> staked (trial sampleGenerator 1 2 1 3 (1 / 8) 0) ! j"
    by blast
  have a0: "1 \<le> staked (trial sampleGenerator 1 2 1 3 (1 / 8) 0) ! 0"
    using a [rule_format, of 0] l by simp
  have a1: "1 \<le> staked (trial sampleGenerator 1 2 1 3 (1 / 8) 0) ! 1"
    using a [rule_format, of 1] l by simp
  have b: "staked (trial sampleGenerator 1 0 25 1 (1 / 2) 0) \<noteq> []
     \<and> staked (trial sampleGenerator 1 0 25 1 (1 / 2) 0) ! 0 = 0"
    using later_bets_covered [of sampleGenerator 1 0 25 1 "1 / 2" 0] by simp
  from l a0 a1 b show ?thesis by simp
qed

text \<open>
  Claim C9. In exact arithmetic the bankroll returned is the initial bankroll plus an
  integer multiple \<open>k\<close> of the bet amount, with \<open>k\<close> between \<open>- numBets\<close> and \<open>numBets\<close>.
\<close>

theorem bet_granularity:
  assumes "0 \<le> N"
  shows "\<exists>k::int. simulateSingleRun mt now B0 b N p runIndex =
      B0 + real_of_int k * b \<and> \<bar>k\<bar> \<le> N"
proof -
  define r where "r = trial mt now B0 b N p runIndex"
  define u where "u = mt (seedOf now runIndex)"
  note f = trial_facts [of mt now B0 b N p runIndex, folded r_def u_def]
  define T where "T = drawn r"
  define k where "k = 2 * int (wins u p T) - int T"
  have ww: "walk u p b B0 T =
      B0 + (2 * real (wins u p T) - real T) * b" and wl: "wins u p T \<le> T"
    using walk_wins [of u p b B0 T] by blast+
  have "real_of_int k = 2 * real (wins u p T) - real T"
    by (simp add: k_def)
  with ww f(2) have 1: "simulateSingleRun mt now B0 b N p runIndex = B0 + real_of_int k * b"
    unfolding simulateSingleRun_def r_def [symmetric] T_def [symmetric] by simp
  have "T \<le> nat N" using f(1) by (simp add: T_def)
  with assms wl have 2: "\<bar>k\<bar> \<le> N" unfolding k_def by linarith
  from 1 2 show ?thesis by blast
qed

theorem bet_granularity_witness:
  "(0::int) \<le> 2 \<and> (\<exists>k::int. simulateSingleRun sampleGenerator 0 2 1 2 (1 / 2) 0 =
      2 + real_of_int k * 1 \<and> \<bar>k\<bar> \<le> 2)"
proof -
  have h: "(0::int) \<le> 2" by simp
  show ?thesis
    using bet_granularity [OF h, of sampleGenerator 0 2 1 "1 / 2" 0] h by blast
qed

text \<open>
  Claim C10. For a run of at least one bet and the same seeded generator, the engine of
  main.cpp returns \<^verbatim>\<open>true\<close> exactly when the engine of Source.cpp returns a bankroll
  strictly below the bet amount, and both draw the same number of values.
\<close>

theorem engines_agree:
  assumes "1 \<le> N"
  shows "(fst (simulateSingleRunFlag mt now B0 b N p runIndex)
            \<longleftrightarrow> simulateSingleRun mt now B0 b N p runIndex < b)
       \<and> snd (simulateSingleRunFlag mt now B0 b N p runIndex)
           = drawn (trial mt now B0 b N p runIndex)"
  unfolding simulateSingleRunFlag_def simulateSingleRun_def
    ruined_iff_below [OF assms]
  unfolding trial_def flagLoop_betLoop [of _ _ _ _ _ _ _ "[]"] by simp

theorem engines_agree_witness:
  "(1::int) \<le> 3
   \<and> fst (simulateSingleRunFlag sampleGenerator 1 2 1 3 (1 / 8) 0)
   \<and> simulateSingleRun sampleGenerator 1 2 1 3 (1 / 8) 0 < 1
   \<and> snd (simulateSingleRunFlag sampleGenerator 1 2 1 3 (1 / 8) 0) = 2"
proof -
  have h: "(1::int) \<le> 3" by simp
  have v: "simulateSingleRun sampleGenerator 1 2 1 3 (1 / 8) 0 = 0"
    unfolding simulateSingleRun_def sample_run_c by simp
  show ?thesis
    using engines_agree [OF h, of sampleGenerator 1 2 1 "1 / 8" 0] h
    unfolding v sample_run_c by simp
qed

text \<open>
  The bound on the number of bets matters: with no bet at all and an initial bankroll
  below the bet amount, the engine of main.cpp returns \<^verbatim>\<open>false\<close> while the engine of
  Source.cpp returns a bankroll below the bet amount.
\<close>

lemma zero_bets_engines_differ:
  "simulateSingleRunFlag sampleGenerator 0 0 25 0 (1 / 2) 0 = (False, 0)
   \<and> simulateSingleRun sampleGenerator 0 0 25 0 (1 / 2) 0 = 0"
  by code_simp

section \<open>Properties of the histogram\<close>

lemma splitLoop_eq:
  "splitLoop b fs (acc, rc, mn, mx) =
     (acc @ filter (\<lambda>f. \<not> f < b) fs,
      rc + int (length (filter (\<lambda>f. f < b) fs)),
      fold (\<lambda>f m. if f < m then f else m) (filter (\<lambda>f. \<not> f < b) fs) mn,
      fold (\<lambda>f m. if f > m then f else m) (filter (\<lambda>f. \<not> f < b) fs) mx)"
  by (induction fs arbitrary: acc rc mn mx) simp_all

lemma fold_min_props:
  fixes m0 :: real
  defines "lo \<equiv> (\<lambda>S m0. fold (\<lambda>f m. if f < m then f else m) S (m0::real))"
  shows "lo S m0 \<le> m0 \<and> (\<forall>x \<in> set S. lo S m0 \<le> x) \<and> (lo S m0 =
      m0 \<or> lo S m0 \<in> set S)"
proof (induction S arbitrary: m0)
  case Nil
  show ?case by (simp add: lo_def)
next
  case (Cons a S)
  have step: "lo (a # S) m0 = lo S (if a < m0 then a else m0)" by (simp add: lo_def)
  from Cons [of "if a < m0 then a else m0"] show ?case
    unfolding step by (auto split: if_splits)
qed

lemma fold_max_props:
  fixes m0 :: real
  defines "hi \<equiv> (\<lambda>S m0. fold (\<lambda>f m. if f > m then f else m) S (m0::real))"
  shows "m0 \<le> hi S m0 \<and> (\<forall>x \<in> set S. x \<le> hi S m0) \<and> (hi S m0 =
      m0 \<or> hi S m0 \<in> set S)"
proof (induction S arbitrary: m0)
  case Nil
  show ?case by (simp add: hi_def)
next
  case (Cons a S)
  have step: "hi (a # S) m0 = hi S (if a > m0 then a else m0)" by (simp add: hi_def)
  from Cons [of "if a > m0 then a else m0"] show ?case
    unfolding step by (auto split: if_splits)
qed

lemma mapBump_keeps:
  "map fst (mapBump k bs) = map fst bs"
  by (induction bs) auto

lemma mapBump_sum:
  "k \<in> fst ` set bs \<Longrightarrow> sum_list (map snd (mapBump k bs)) =
      sum_list (map snd bs) + 1"
  by (induction bs) force+

lemma bumpLast_keeps:
  "map fst (bumpLast bs) = map fst bs"
  by (induction bs rule: bumpLast.induct) auto

lemma bumpLast_sum:
  "bs \<noteq> [] \<Longrightarrow> sum_list (map snd (bumpLast bs)) = sum_list (map snd bs) + 1"
  by (induction bs rule: bumpLast.induct) auto


lemma keys_image: "map fst bs' = map fst bs \<Longrightarrow> fst ` set bs' = fst ` set bs"
  by (metis set_map)

lemma keys_nonempty: "map fst bs' = map fst bs \<Longrightarrow> bs \<noteq>
    [] \<Longrightarrow> bs' \<noteq> []"
  by auto

lemma populate_ok:
  assumes "bs \<noteq> []"
  shows "\<exists>bs' m'. populate mn mx w xs (bs, m) = Inr (bs', m')
           \<and> map fst bs' = map fst bs
           \<and> ((\<forall>x \<in> set xs. x = mx \<or> binKeyOf mn w x \<in> fst ` set bs)
                \<longrightarrow> sum_list (map snd bs') = sum_list (map snd bs) + int (length xs))"
  using assms
proof (induction xs arbitrary: bs m)
  case Nil
  show ?case by simp
next
  case (Cons x xs)
  show ?case
  proof (cases "x = mx")
    case True
    define m1 where "m1 = (if snd (last bs) + 1 > m then snd (last bs) + 1 else m)"
    have step: "populate mn mx w (x # xs) (bs, m) = populate mn mx w xs (bumpLast bs, m1)"
      using True Cons.prems by (simp add: Let_def m1_def)
    have ne: "bumpLast bs \<noteq> []"
      using Cons.prems bumpLast_keeps [of bs] by (rule_tac keys_nonempty)
    from Cons.IH [OF ne, of m1] obtain bs' m' where
      r: "populate mn mx w xs (bumpLast bs, m1) = Inr (bs', m')"
      and k: "map fst bs' = map fst (bumpLast bs)"
      and c: "(\<forall>x \<in> set xs. x = mx \<or> binKeyOf mn w x \<in> fst ` set (bumpLast bs))
                \<longrightarrow> sum_list (map snd bs') =
                    sum_list (map snd (bumpLast bs)) + int (length xs)"
      by blast
    have img: "fst ` set (bumpLast bs) = fst ` set bs"
      by (rule keys_image) (rule bumpLast_keeps)
    show ?thesis
      unfolding step using r k c img bumpLast_sum [OF Cons.prems] bumpLast_keeps [of bs]
      by auto
  next
    case False
    show ?thesis
    proof (cases "map_of bs (binKeyOf mn w x)")
      case None
      have step: "populate mn mx w (x # xs) (bs, m) = populate mn mx w xs (bs, m)"
        using False None by (simp add: Let_def binKeyOf_def)
      have nk: "binKeyOf mn w x \<notin> fst ` set bs"
        using None by (simp add: map_of_eq_None_iff)
      from Cons.IH [OF Cons.prems, of m] obtain bs' m' where
        r: "populate mn mx w xs (bs, m) = Inr (bs', m')"
        and k: "map fst bs' = map fst bs"
        by blast
      show ?thesis
        unfolding step using r k nk False by auto
    next
      case (Some v)
      define m1 where "m1 = (if v + 1 > m then v + 1 else m)"
      define bs1 where "bs1 = mapBump (binKeyOf mn w x) bs"
      have step: "populate mn mx w (x # xs) (bs, m) = populate mn mx w xs (bs1, m1)"
        using False Some by (simp add: Let_def binKeyOf_def m1_def bs1_def)
      have k1: "map fst bs1 = map fst bs"
        unfolding bs1_def by (rule mapBump_keeps)
      have ne: "bs1 \<noteq> []"
        using k1 Cons.prems by (rule keys_nonempty)
      have inK: "binKeyOf mn w x \<in> fst ` set bs"
        using Some by (metis map_of_eq_None_iff option.distinct(1))
      have s1: "sum_list (map snd bs1) = sum_list (map snd bs) + 1"
        unfolding bs1_def by (rule mapBump_sum [OF inK])
      from Cons.IH [OF ne, of m1] obtain bs' m' where
        r: "populate mn mx w xs (bs1, m1) = Inr (bs', m')"
        and k: "map fst bs' = map fst bs1"
        and c: "(\<forall>x \<in> set xs. x = mx \<or> binKeyOf mn w x \<in> fst ` set bs1)
                \<longrightarrow> sum_list (map snd bs') = sum_list (map snd bs1) + int (length xs)"
        by blast
      have img: "fst ` set bs1 = fst ` set bs"
        by (rule keys_image) (rule k1)
      show ?thesis
        unfolding step using r k c img s1 k1 by auto
    qed
  qed
qed

lemma survivors_bounds:
  assumes fin: "\<forall>x \<in> set fs. \<bar>x\<bar> \<le> DBL_MAX"
    and ex: "\<exists>x \<in> set fs. \<not> x < b"
    and sp: "splitLoop b fs ([], 0, DBL_MAX, - DBL_MAX) = (surv, rc, mn, mx)"
  shows "surv = filter (\<lambda>f. \<not> f < b) fs" and "surv \<noteq> []"
    and "rc = int (length (filter (\<lambda>f. f < b) fs))"
    and "\<forall>x \<in> set surv. mn \<le> x \<and> x \<le> mx"
    and "mn \<in> set surv" and "mx \<in> set surv"
proof -
  note e = sp [unfolded splitLoop_eq]
  show s: "surv = filter (\<lambda>f. \<not> f < b) fs" using e by simp
  show ne: "surv \<noteq> []" using ex unfolding s by (simp add: filter_empty_conv)
  show "rc = int (length (filter (\<lambda>f. f < b) fs))" using e by simp
  have mn: "mn = fold (\<lambda>f m. if f < m then f else m) surv DBL_MAX"
    and mx: "mx = fold (\<lambda>f m. if f > m then f else m) surv (- DBL_MAX)"
    using e unfolding s by simp_all
  note lo = fold_min_props [of surv DBL_MAX, folded mn]
  note hi = fold_max_props [of "- DBL_MAX" surv, folded mx]
  have bd: "\<forall>x \<in> set surv. - DBL_MAX \<le> x \<and> x \<le> DBL_MAX"
    using fin unfolding s by auto
  show "\<forall>x \<in> set surv. mn \<le> x \<and> x \<le> mx" using lo hi by blast
  obtain y where y: "y \<in> set surv" using ne by (cases surv) auto
  show "mn \<in> set surv"
  proof (rule ccontr)
    assume n: "mn \<notin> set surv"
    with lo have "mn = DBL_MAX" by blast
    moreover from lo y have "mn \<le> y" by blast
    moreover from bd y have "y \<le> DBL_MAX" by blast
    ultimately have "y = mn" by simp
    with y n show False by simp
  qed
  show "mx \<in> set surv"
  proof (rule ccontr)
    assume n: "mx \<notin> set surv"
    with hi have "mx = - DBL_MAX" by blast
    moreover from hi y have "y \<le> mx" by blast
    moreover from bd y have "- DBL_MAX \<le> y" by blast
    ultimately have "y = mx" by simp
    with y n show False by simp
  qed
qed


lemma mapPut_nonempty: "mapPut k v bs \<noteq> []"
  by (cases bs) (auto split: if_splits)

lemma initBins_nonempty:
  assumes "1 \<le> numBins"
  shows "initBins mn w numBins \<noteq> []"
proof -
  obtain n where n: "nat numBins = Suc n"
    using assms by (cases "nat numBins") auto
  show ?thesis
    unfolding initBins_def n by (simp add: mapPut_nonempty)
qed

lemma rnd_step:
  assumes "x \<noteq> 0" and "normalise 2200 \<bar>x\<bar> 0 = (m, q)" and "roundEven m = r"
  shows "rnd x = sgn x * real_of_int r * pow2 q"
  using assms by (simp add: rnd_def)

lemma roundEven_step:
  assumes "\<lfloor>m\<rfloor> = f"
  shows "roundEven m =
           (if m - real_of_int f < 1 / 2 then f else if 1 / 2 < m - real_of_int f then f + 1
            else if even f then f else f + 1)"
  using assms by (simp add: roundEven_def Let_def)

lemma printBankrollHistogram_eval:
  assumes sp: "splitLoop b fs ([], 0, DBL_MAX, - DBL_MAX) = (surv, rc, mn, mx)"
    and ne: "surv \<noteq> []"
    and w: "w = (if fdiv (fsub mx mn) (real_of_int numBins) = 0 then 100
                 else fdiv (fsub mx mn) (real_of_int numBins))"
    and r: "populate mn mx w surv (initBins mn w numBins, 0) = Inr (bs, m)"
  shows "printBankrollHistogram fs b numBins totalRuns =
           Inr (Some \<lparr>numSurvivors = int (length surv), ruinedRuns = rc,
                      minBankroll = mn, maxBankroll = mx, binWidth = w,
                      bins = bs, maxBinCount = m\<rparr>)"
proof -
  have "printBankrollHistogram fs b numBins totalRuns =
          (case populate mn mx w surv (initBins mn w numBins, 0) of
             Inl e \<Rightarrow> Inl e
           | Inr (bs, m) \<Rightarrow>
               Inr (Some \<lparr>numSurvivors = int (length surv), ruinedRuns = rc,
                          minBankroll = mn, maxBankroll = mx, binWidth = w,
                          bins = bs, maxBinCount = m\<rparr>))"
    unfolding printBankrollHistogram_def sp Let_def w
    using ne by (simp split del: if_split)
  then show ?thesis unfolding r by simp
qed

text \<open>
  Two keys can coincide: from a minimum of \<open>2 ^ 60\<close> with the width 100, the second key
  rounds to the first, and two assignments make one bin.
\<close>

lemma collide_1: "fmul 0 100 = 0"
  by (simp add: fmul_def rnd_def)

lemma collide_2: "fadd 1152921504606846976 0 = 1152921504606846976"
proof -
  have n: "normalise 2200 \<bar>1152921504606846976 + 0\<bar> 0 = (4503599627370496, 8)"
    by (simp add: eval_nat_numeral)
  have r: "roundEven 4503599627370496 = 4503599627370496"
    using roundEven_step [of "4503599627370496" 4503599627370496] by simp
  show ?thesis
    unfolding fadd_def using rnd_step [OF _ n r] by (simp add: pow2_def)
qed

lemma collide_3: "fmul 1 100 = 100"
proof -
  have n: "normalise 2200 \<bar>1 * 100\<bar> 0 = (7036874417766400, (- 46))"
    by (simp add: eval_nat_numeral)
  have r: "roundEven 7036874417766400 = 7036874417766400"
    using roundEven_step [of "7036874417766400" 7036874417766400] by simp
  show ?thesis
    unfolding fmul_def using rnd_step [OF _ n r] by (simp add: pow2_def)
qed

lemma collide_4: "fadd 1152921504606846976 100 = 1152921504606846976"
proof -
  have n: "normalise 2200 \<bar>1152921504606846976 + 100\<bar> 0 = ((288230376151711769 / 64), 8)"
    by (simp add: eval_nat_numeral)
  have r: "roundEven (288230376151711769 / 64) = 4503599627370496"
    using roundEven_step [of "(288230376151711769 / 64)" 4503599627370496] by simp
  show ?thesis
    unfolding fadd_def using rnd_step [OF _ n r] by (simp add: pow2_def)
qed

lemma initBins_collide: "initBins 1152921504606846976 100 2 = [(1152921504606846976, 0)]"
  by (simp add: initBins_def eval_nat_numeral collide_1 collide_2 collide_3 collide_4)

lemma mapPut_set: "set (mapPut k v bs) \<subseteq> insert (k, v) (set bs)"
  by (induction bs) (auto split: if_splits)

lemma fold_mapPut_zero:
  "\<forall>e \<in> set acc. snd e = 0 \<Longrightarrow>
   \<forall>e \<in> set (fold (\<lambda>i bs. mapPut (f i) 0 bs) is acc). snd e = 0"
proof (induction "is" arbitrary: acc)
  case Nil
  then show ?case by simp
next
  case (Cons i "is")
  have "\<forall>e \<in> set (mapPut (f i) 0 acc). snd e = 0"
    using Cons.prems mapPut_set [of "f i" 0 acc] by auto
  from Cons.IH [OF this] show ?case by simp
qed

lemma initBins_zero: "\<forall>e \<in> set (initBins mn w numBins). snd e = 0"
  unfolding initBins_def by (rule fold_mapPut_zero) simp

lemma sum_list_zero: "\<forall>c \<in> set cs. c = (0::int) \<Longrightarrow> sum_list cs = 0"
  by (induction cs) auto

lemma initBins_sum: "sum_list (map snd (initBins mn w numBins)) = 0"
proof -
  have "\<forall>c \<in> set (map snd (initBins mn w numBins)). c = 0"
    using initBins_zero [of mn w numBins] by auto
  then show ?thesis by (rule sum_list_zero)
qed

text \<open>
  The counts add up to the number of survivors whenever every survivor other than the
  maximum has a key that is the key of a bin.
\<close>

lemma histogram_complete_if_found:
  assumes K: "1 \<le> numBins"
    and sp: "splitLoop b fs ([], 0, DBL_MAX, - DBL_MAX) = (surv, rc, mn, mx)"
    and ne: "surv \<noteq> []"
    and w: "w = (if fdiv (fsub mx mn) (real_of_int numBins) = 0 then 100
                 else fdiv (fsub mx mn) (real_of_int numBins))"
    and found: "\<forall>x \<in> set surv. x = mx \<or> binKeyOf mn w x \<in> fst ` set
        (initBins mn w numBins)"
  shows "\<exists>bs m. printBankrollHistogram fs b numBins totalRuns =
           Inr (Some \<lparr>numSurvivors = int (length surv), ruinedRuns = rc,
                      minBankroll = mn, maxBankroll = mx, binWidth = w,
                      bins = bs, maxBinCount = m\<rparr>)
         \<and> sum_list (map snd bs) = int (length surv)"
proof -
  have bne: "initBins mn w numBins \<noteq> []" by (rule initBins_nonempty [OF K])
  from populate_ok [OF bne, of mn mx w surv 0] found obtain bs m where
    r: "populate mn mx w surv (initBins mn w numBins, 0) = Inr (bs, m)"
    and c: "sum_list (map snd bs) = sum_list (map snd (initBins mn w numBins)) + int (length surv)"
    by blast
  note e = printBankrollHistogram_eval [OF sp ne w r, of totalRuns]
  from e c show ?thesis by (simp add: initBins_sum)
qed

lemma dropped_1: "fsub 1 0 = 1"
proof -
  have n: "normalise 2200 \<bar>1 - 0\<bar> 0 = (4503599627370496, (- 52))"
    by (simp add: eval_nat_numeral)
  have r: "roundEven 4503599627370496 = 4503599627370496"
    using roundEven_step [of "4503599627370496" 4503599627370496] by simp
  show ?thesis
    unfolding fsub_def using rnd_step [OF _ n r] by (simp add: pow2_def)
qed

lemma dropped_2: "fdiv 1 3 = (6004799503160661 / 18014398509481984)"
proof -
  have n: "normalise 2200 \<bar>1 / 3\<bar> 0 = ((18014398509481984 / 3), (- 54))"
    by (simp add: eval_nat_numeral)
  have r: "roundEven (18014398509481984 / 3) = 6004799503160661"
    using roundEven_step [of "(18014398509481984 / 3)" 6004799503160661] by simp
  show ?thesis
    unfolding fdiv_def using rnd_step [OF _ n r] by (simp add: pow2_def)
qed

lemma dropped_3: "fmul 0 (6004799503160661 / 18014398509481984) = 0"
  by (simp add: fmul_def rnd_def)

lemma dropped_4: "fadd 0 0 = 0"
  by (simp add: fadd_def rnd_def)

lemma dropped_5: "fmul 1 (6004799503160661 / 18014398509481984) =
    (6004799503160661 / 18014398509481984)"
proof -
  have n: "normalise 2200 \<bar>1 * (6004799503160661 / 18014398509481984)\<bar> 0 =
      (6004799503160661, (- 54))"
    by (simp add: eval_nat_numeral)
  have r: "roundEven 6004799503160661 = 6004799503160661"
    using roundEven_step [of "6004799503160661" 6004799503160661] by simp
  show ?thesis
    unfolding fmul_def using rnd_step [OF _ n r] by (simp add: pow2_def)
qed

lemma dropped_6: "fadd 0 (6004799503160661 / 18014398509481984) =
    (6004799503160661 / 18014398509481984)"
proof -
  have n: "normalise 2200 \<bar>0 + (6004799503160661 / 18014398509481984)\<bar> 0 =
      (6004799503160661, (- 54))"
    by (simp add: eval_nat_numeral)
  have r: "roundEven 6004799503160661 = 6004799503160661"
    using roundEven_step [of "6004799503160661" 6004799503160661] by simp
  show ?thesis
    unfolding fadd_def using rnd_step [OF _ n r] by (simp add: pow2_def)
qed

lemma dropped_7: "fmul 2 (6004799503160661 / 18014398509481984) =
    (6004799503160661 / 9007199254740992)"
proof -
  have n: "normalise 2200 \<bar>2 * (6004799503160661 / 18014398509481984)\<bar> 0 =
      (6004799503160661, (- 53))"
    by (simp add: eval_nat_numeral)
  have r: "roundEven 6004799503160661 = 6004799503160661"
    using roundEven_step [of "6004799503160661" 6004799503160661] by simp
  show ?thesis
    unfolding fmul_def using rnd_step [OF _ n r] by (simp add: pow2_def)
qed

lemma dropped_8: "fadd 0 (6004799503160661 / 9007199254740992) =
    (6004799503160661 / 9007199254740992)"
proof -
  have n: "normalise 2200 \<bar>0 + (6004799503160661 / 9007199254740992)\<bar> 0 =
      (6004799503160661, (- 53))"
    by (simp add: eval_nat_numeral)
  have r: "roundEven 6004799503160661 = 6004799503160661"
    using roundEven_step [of "6004799503160661" 6004799503160661] by simp
  show ?thesis
    unfolding fadd_def using rnd_step [OF _ n r] by (simp add: pow2_def)
qed

lemma dropped_9: "fsub 0 0 = 0"
  by (simp add: fsub_def rnd_def)

lemma dropped_10: "fdiv 0 (6004799503160661 / 18014398509481984) = 0"
  by (simp add: fdiv_def rnd_def)

lemma dropped_11: "fsub (9007199254740991 / 9007199254740992) 0 =
    (9007199254740991 / 9007199254740992)"
proof -
  have n: "normalise 2200 \<bar>(9007199254740991 / 9007199254740992) - 0\<bar> 0 =
      (9007199254740991, (- 53))"
    by (simp add: eval_nat_numeral)
  have r: "roundEven 9007199254740991 = 9007199254740991"
    using roundEven_step [of "9007199254740991" 9007199254740991] by simp
  show ?thesis
    unfolding fsub_def using rnd_step [OF _ n r] by (simp add: pow2_def)
qed

lemma dropped_12: "fdiv (9007199254740991 / 9007199254740992) (6004799503160661 / 18014398509481984) =
    3"
proof -
  have n: "normalise 2200 \<bar>(9007199254740991 / 9007199254740992) / (6004799503160661 / 18014398509481984)\<bar> 0 = ((40564819207303336344294875201536 / 6004799503160661), (- 51))"
    by (simp add: eval_nat_numeral)
  have r: "roundEven (40564819207303336344294875201536 / 6004799503160661) = 6755399441055744"
    using roundEven_step
        [of "(40564819207303336344294875201536 / 6004799503160661)" 6755399441055743] by simp
  show ?thesis
    unfolding fdiv_def using rnd_step [OF _ n r] by (simp add: pow2_def)
qed

lemma dropped_13: "fmul 3 (6004799503160661 / 18014398509481984) = 1"
proof -
  have n: "normalise 2200 \<bar>3 * (6004799503160661 / 18014398509481984)\<bar> 0 =
      ((18014398509481983 / 2), (- 53))"
    by (simp add: eval_nat_numeral)
  have r: "roundEven (18014398509481983 / 2) = 9007199254740992"
    using roundEven_step [of "(18014398509481983 / 2)" 9007199254740991] by simp
  show ?thesis
    unfolding fmul_def using rnd_step [OF _ n r] by (simp add: pow2_def)
qed

lemma dropped_14: "fadd 0 1 = 1"
proof -
  have n: "normalise 2200 \<bar>0 + 1\<bar> 0 = (4503599627370496, (- 52))"
    by (simp add: eval_nat_numeral)
  have r: "roundEven 4503599627370496 = 4503599627370496"
    using roundEven_step [of "4503599627370496" 4503599627370496] by simp
  show ?thesis
    unfolding fadd_def using rnd_step [OF _ n r] by (simp add: pow2_def)
qed

lemma dropped_15: "fdiv 1 (6004799503160661 / 18014398509481984) = 3"
proof -
  have n: "normalise 2200 \<bar>1 / (6004799503160661 / 18014398509481984)\<bar> 0 =
      ((40564819207303340847894502572032 / 6004799503160661), (- 51))"
    by (simp add: eval_nat_numeral)
  have r: "roundEven (40564819207303340847894502572032 / 6004799503160661) = 6755399441055744"
    using roundEven_step
        [of "(40564819207303340847894502572032 / 6004799503160661)" 6755399441055744] by simp
  show ?thesis
    unfolding fdiv_def using rnd_step [OF _ n r] by (simp add: pow2_def)
qed

lemmas dropped =
    dropped_1 dropped_2 dropped_3 dropped_4 dropped_5 dropped_6 dropped_7 dropped_8 dropped_9 dropped_10 dropped_11 dropped_12 dropped_13 dropped_14 dropped_15

text \<open>
  Claim C6 says that the bin counts add up to the number of survivors for every input
  with a survivor and at least one bin. The source rounds the quotient that gives the
  bin index: for the survivors 0, the largest double below 1, and 1, with a bet amount
  of 0 and three bins, the width is the double nearest to one third, the quotient of
  the second survivor by it rounds to 3, and the key for index 3 is 1, which is the key
  of no bin. \<^verbatim>\<open>find\<close> fails, nothing is counted, and the counts add up to 2 for 3
  survivors.
\<close>

theorem histogram_drops_survivor:
  "printBankrollHistogram [0, 9007199254740991 / 9007199254740992, 1] 0 3 3 =
     Inr (Some \<lparr>numSurvivors = 3, ruinedRuns = 0, minBankroll = 0, maxBankroll = 1,
                binWidth = 6004799503160661 / 18014398509481984,
                bins = [(0, 1),
                        (6004799503160661 / 18014398509481984, 0),
                        (6004799503160661 / 9007199254740992, 1)],
                maxBinCount = 1\<rparr>)"
proof -
  have s: "splitLoop 0 [0, 9007199254740991 / 9007199254740992, 1] ([], 0, DBL_MAX, - DBL_MAX) =
      ([0, 9007199254740991 / 9007199254740992, 1], 0, 0, 1)"
    by (simp add: DBL_MAX_def)
  have b: "initBins 0 (6004799503160661 / 18014398509481984) 3 = [(0, 0),
      (6004799503160661 / 18014398509481984, 0), (6004799503160661 / 9007199254740992, 0)]"
    by (simp add: initBins_def eval_nat_numeral dropped)
  have p: "populate 0 1 (6004799503160661 / 18014398509481984)
      [0, 9007199254740991 / 9007199254740992, 1]
          (initBins 0 (6004799503160661 / 18014398509481984) 3, 0) = Inr ([(0, 1),
              (6004799503160661 / 18014398509481984, 0),
                  (6004799503160661 / 9007199254740992, 1)], 1)"
    unfolding b by (simp add: dropped)
  show ?thesis
    using printBankrollHistogram_eval [OF s _ _ p, of 3] by (simp add: dropped)
qed

lemma bumpLast_last:
  "bs \<noteq> [] \<Longrightarrow> bumpLast bs = butlast bs @ [(fst (last bs), snd (last bs) + 1)]"
  by (induction bs rule: bumpLast.induct) auto

lemma populate_all_max:
  assumes "bs \<noteq> []" and "\<forall>x \<in> set xs. x = mx"
  shows "\<exists>m'. populate mn mx w xs (bs, m) =
           Inr (butlast bs @ [(fst (last bs), snd (last bs) + int (length xs))], m')"
  using assms
proof (induction xs arbitrary: bs m)
  case Nil
  then show ?case by simp
next
  case (Cons x xs)
  define m1 where "m1 = (if snd (last bs) + 1 > m then snd (last bs) + 1 else m)"
  define bs1 where "bs1 = butlast bs @ [(fst (last bs), snd (last bs) + 1)]"
  have x: "x = mx" using Cons.prems by simp
  have step: "populate mn mx w (x # xs) (bs, m) = populate mn mx w xs (bs1, m1)"
    using x Cons.prems(1) by (simp add: Let_def m1_def bs1_def bumpLast_last)
  have ne: "bs1 \<noteq> []" by (simp add: bs1_def)
  have al: "\<forall>x \<in> set xs. x = mx" using Cons.prems by simp
  from Cons.IH [OF ne al, of m1] obtain m' where
    "populate mn mx w xs (bs1, m1) =
       Inr (butlast bs1 @ [(fst (last bs1), snd (last bs1) + int (length xs))], m')"
    by blast
  then show ?case unfolding step by (auto simp: bs1_def)
qed

text \<open>
  When all survivors are equal, the width is the sentinel 100, every bin but the last
  is empty and the last bin counts every survivor.
\<close>

lemma degenerate_histogram_shape:
  assumes K: "1 \<le> numBins"
    and fin: "\<forall>x \<in> set fs. \<bar>x\<bar> \<le> DBL_MAX"
    and ex: "\<exists>x \<in> set fs. \<not> x < b"
    and eq: "\<forall>x \<in> set fs. \<not> x < b \<longrightarrow> x = v"
  shows "\<exists>h. printBankrollHistogram fs b numBins totalRuns = Inr (Some h)
           \<and> binWidth h = 100
           \<and> bins h = butlast (initBins v 100 numBins)
                        @ [(fst (last (initBins v 100 numBins)), numSurvivors h)]"
proof -
  obtain surv rc mn mx where
    sp: "splitLoop b fs ([], 0, DBL_MAX, - DBL_MAX) = (surv, rc, mn, mx)"
    by (cases "splitLoop b fs ([], 0, DBL_MAX, - DBL_MAX)") auto
  note sv = survivors_bounds [OF fin ex sp]
  have all: "\<forall>x \<in> set surv. x = v" using eq unfolding sv(1) by simp
  with sv(5,6) have mn: "mn = v" and mx: "mx = v" by blast+
  have allmx: "\<forall>x \<in> set surv. x = mx" using all mx by simp
  have w: "(100::real) = (if fdiv (fsub mx mn) (real_of_int numBins) = 0 then 100
                 else fdiv (fsub mx mn) (real_of_int numBins))"
    by (simp add: mn mx fsub_def fdiv_def rnd_def)
  define bs0 where "bs0 = initBins mn 100 numBins"
  have ne: "bs0 \<noteq> []" unfolding bs0_def by (rule initBins_nonempty [OF K])
  have "last bs0 \<in> set bs0" using ne by simp
  then have z: "snd (last (initBins v 100 numBins)) = 0"
    using initBins_zero [of mn 100 numBins] unfolding bs0_def mn by blast
  from populate_all_max [OF ne allmx, of mn 100 0] obtain m' where
    r: "populate mn mx 100 surv (initBins mn 100 numBins, 0) =
          Inr (butlast bs0 @ [(fst (last bs0), snd (last bs0) + int (length surv))], m')"
    unfolding bs0_def by blast
  note e = printBankrollHistogram_eval [OF sp sv(2) w r, of totalRuns]
  show ?thesis
    unfolding e by (simp add: z bs0_def mn)
qed

lemma single_1: "fsub 100 100 = 0"
  by (simp add: fsub_def rnd_def)

lemma single_2: "fdiv 0 2 = 0"
  by (simp add: fdiv_def rnd_def)

lemma single_3: "fmul 0 100 = 0"
  by (simp add: fmul_def rnd_def)

lemma single_4: "fadd 100 0 = 100"
proof -
  have n: "normalise 2200 \<bar>100 + 0\<bar> 0 = (7036874417766400, (- 46))"
    by (simp add: eval_nat_numeral)
  have r: "roundEven 7036874417766400 = 7036874417766400"
    using roundEven_step [of "7036874417766400" 7036874417766400] by simp
  show ?thesis
    unfolding fadd_def using rnd_step [OF _ n r] by (simp add: pow2_def)
qed

lemma single_5: "fmul 1 100 = 100"
proof -
  have n: "normalise 2200 \<bar>1 * 100\<bar> 0 = (7036874417766400, (- 46))"
    by (simp add: eval_nat_numeral)
  have r: "roundEven 7036874417766400 = 7036874417766400"
    using roundEven_step [of "7036874417766400" 7036874417766400] by simp
  show ?thesis
    unfolding fmul_def using rnd_step [OF _ n r] by (simp add: pow2_def)
qed

lemma single_6: "fadd 100 100 = 200"
proof -
  have n: "normalise 2200 \<bar>100 + 100\<bar> 0 = (7036874417766400, (- 45))"
    by (simp add: eval_nat_numeral)
  have r: "roundEven 7036874417766400 = 7036874417766400"
    using roundEven_step [of "7036874417766400" 7036874417766400] by simp
  show ?thesis
    unfolding fadd_def using rnd_step [OF _ n r] by (simp add: pow2_def)
qed

lemma single_7: "fdiv 0 100 = 0"
  by (simp add: fdiv_def rnd_def)

lemmas single = single_1 single_2 single_3 single_4 single_5 single_6 single_7

text \<open>
  Claim C1 says that when all survivors are equal they are all counted in the first
  bin and every other bin stays empty. The source computes the key of the first bin
  for such a survivor, but tests \<^verbatim>\<open>bankroll == maxBankroll\<close> before it looks the key
  up, and every such survivor equals the maximum: with one survivor 100, a bet amount
  of 25 and two bins, the width is the sentinel 100, two bins are made, and the
  survivor is counted in the last bin while the first stays empty.
\<close>

theorem degenerate_histogram_last_bin:
  "printBankrollHistogram [100] 25 2 1 =
     Inr (Some \<lparr>numSurvivors = 1, ruinedRuns = 0, minBankroll = 100, maxBankroll = 100,
                binWidth = 100, bins = [(100, 0), (200, 1)],
                maxBinCount = 1\<rparr>)"
proof -
  have s: "splitLoop 25 [100] ([], 0, DBL_MAX, - DBL_MAX) = ([100], 0, 100, 100)"
    by (simp add: DBL_MAX_def)
  have b: "initBins 100 100 2 = [(100, 0), (200, 0)]"
    by (simp add: initBins_def eval_nat_numeral single)
  have p: "populate 100 100 100 [100] (initBins 100 100 2, 0) = Inr ([(100, 0), (200, 1)], 1)"
    unfolding b by (simp add: single)
  show ?thesis
    using printBankrollHistogram_eval [OF s _ _ p, of 1] by (simp add: single)
qed

text \<open>The chart has one line per bin.\<close>

lemma chartRows_length: "length (chartRows h) = length (bins h)"
  by (simp add: chartRows_def)

section \<open>Properties of the campaign drivers\<close>

lemma printBankrollHistogram_total:
  assumes K: "1 \<le> numBins"
  shows "\<exists>h. printBankrollHistogram fs b numBins totalRuns = Inr h
           \<and> (case h of None \<Rightarrow> 0 | Some hh \<Rightarrow> numSurvivors hh)
               = int (length (filter (\<lambda>f. \<not> f < b) fs))"
proof -
  obtain surv rc mn mx where
    sp: "splitLoop b fs ([], 0, DBL_MAX, - DBL_MAX) = (surv, rc, mn, mx)"
    by (cases "splitLoop b fs ([], 0, DBL_MAX, - DBL_MAX)") auto
  have s: "surv = filter (\<lambda>f. \<not> f < b) fs"
    using sp unfolding splitLoop_eq by simp
  show ?thesis
  proof (cases "surv = []")
    case True
    have "printBankrollHistogram fs b numBins totalRuns = Inr None"
      unfolding printBankrollHistogram_def sp using True by simp
    then show ?thesis using True s by simp
  next
    case False
    define w where "w = (if fdiv (fsub mx mn) (real_of_int numBins) = 0 then 100
                   else fdiv (fsub mx mn) (real_of_int numBins))"
    define bs0 where "bs0 = initBins mn w numBins"
    have ne: "bs0 \<noteq> []" unfolding bs0_def by (rule initBins_nonempty [OF K])
    from populate_ok [OF ne, of mn mx w surv 0] obtain bs m where
      r: "populate mn mx w surv (bs0, 0) = Inr (bs, m)" by blast
    have "printBankrollHistogram fs b numBins totalRuns =
          (case populate mn mx w surv (bs0, 0) of
             Inl e \<Rightarrow> Inl e
           | Inr (bs, m) \<Rightarrow>
               Inr (Some \<lparr>numSurvivors = int (length surv), ruinedRuns = rc,
                          minBankroll = mn, maxBankroll = mx, binWidth = w,
                          bins = bs, maxBinCount = m\<rparr>))"
      unfolding printBankrollHistogram_def sp Let_def bs0_def w_def
      using False by (simp split del: if_split)
    then have "printBankrollHistogram fs b numBins totalRuns =
           Inr (Some \<lparr>numSurvivors = int (length surv), ruinedRuns = rc,
                      minBankroll = mn, maxBankroll = mx, binWidth = w,
                      bins = bs, maxBinCount = m\<rparr>)"
      unfolding r by simp
    then show ?thesis using s by simp
  qed
qed

lemma testBankroll_ok:
  assumes K: "1 \<le> HISTOGRAM_BINS cfg" and R: "0 \<le> TOTAL_RUNS cfg"
  shows "\<exists>r. testBankroll mt clock cfg start t = Inr (r, t + nat (TOTAL_RUNS cfg))
           \<and> startBankroll r = start
           \<and> finalBankrolls r = map (trialAt mt clock cfg start t 0) [0..<nat (TOTAL_RUNS cfg)]
           \<and> ruinCount r =
               int (length (filter (\<lambda>x. x < BET_AMOUNT cfg) (finalBankrolls r)))
           \<and> survivingCount r =
               int (length (filter (\<lambda>x. \<not> x < BET_AMOUNT cfg) (finalBankrolls r)))
           \<and> ruinProbability r = real_of_int (ruinCount r) / real_of_int (TOTAL_RUNS cfg)"
proof -
  define finals where "finals = map (trialAt mt clock cfg start t 0) [0..<nat (TOTAL_RUNS cfg)]"
  define rc where "rc = int (length (filter (\<lambda>x. x < BET_AMOUNT cfg) finals))"
  have tl: "trialsLoop mt clock cfg start 0 t 0 [] = (rc, finals, t + nat (TOTAL_RUNS cfg))"
    unfolding trialsLoop_run rc_def finals_def by simp
  from printBankrollHistogram_total [OF K, of finals "BET_AMOUNT cfg" "TOTAL_RUNS cfg"]
  obtain h where
    p: "printBankrollHistogram finals (BET_AMOUNT cfg) (HISTOGRAM_BINS cfg) (TOTAL_RUNS cfg) =
        Inr h"
    and c: "(case h of None \<Rightarrow> 0 | Some hh \<Rightarrow> numSurvivors hh)
               = int (length (filter (\<lambda>f. \<not> f < BET_AMOUNT cfg) finals))"
    by blast
  have "testBankroll mt clock cfg start t =
          Inr (\<lparr>startBankroll = start, ruinCount = rc,
                ruinProbability = real_of_int rc / real_of_int (TOTAL_RUNS cfg),
                finalBankrolls = finals, chart = h\<rparr>, t + nat (TOTAL_RUNS cfg))"
    unfolding testBankroll_def tl using R by (simp add: p)
  then show ?thesis
    using c by (simp add: survivingCount_def rc_def finals_def)
qed

lemma testBankrolls_ok:
  assumes K: "1 \<le> HISTOGRAM_BINS cfg" and R: "0 \<le> TOTAL_RUNS cfg"
  shows "\<exists>rs. testBankrolls mt clock cfg starts t = Inr rs
           \<and> map startBankroll rs = starts
           \<and> (\<forall>r \<in> set rs.
                 length (finalBankrolls r) = nat (TOTAL_RUNS cfg)
               \<and> ruinCount r =
                   int (length (filter (\<lambda>x. x < BET_AMOUNT cfg) (finalBankrolls r)))
               \<and> survivingCount r =
                   int (length (filter (\<lambda>x. \<not> x < BET_AMOUNT cfg) (finalBankrolls r)))
               \<and> ruinProbability r = real_of_int (ruinCount r) / real_of_int (TOTAL_RUNS cfg))"
proof (induction starts arbitrary: t)
  case Nil
  show ?case by simp
next
  case (Cons start starts)
  from testBankroll_ok [OF K R, of mt clock start t] obtain r where
    r: "testBankroll mt clock cfg start t = Inr (r, t + nat (TOTAL_RUNS cfg))"
    and s: "startBankroll r = start"
    and f: "finalBankrolls r = map (trialAt mt clock cfg start t 0) [0..<nat (TOTAL_RUNS cfg)]"
    and c: "ruinCount r = int (length (filter (\<lambda>x. x < BET_AMOUNT cfg) (finalBankrolls r)))"
    and v: "survivingCount r =
        int (length (filter (\<lambda>x. \<not> x < BET_AMOUNT cfg) (finalBankrolls r)))"
    and p: "ruinProbability r = real_of_int (ruinCount r) / real_of_int (TOTAL_RUNS cfg)"
    by blast
  have l: "length (finalBankrolls r) = nat (TOTAL_RUNS cfg)" unfolding f by simp
  from Cons [of "t + nat (TOTAL_RUNS cfg)"] obtain rs where
    rs: "testBankrolls mt clock cfg starts (t + nat (TOTAL_RUNS cfg)) = Inr rs"
    and ss: "map startBankroll rs = starts"
    and al: "\<forall>r \<in> set rs.
                 length (finalBankrolls r) = nat (TOTAL_RUNS cfg)
               \<and> ruinCount r =
                   int (length (filter (\<lambda>x. x < BET_AMOUNT cfg) (finalBankrolls r)))
               \<and> survivingCount r =
                   int (length (filter (\<lambda>x. \<not> x < BET_AMOUNT cfg) (finalBankrolls r)))
               \<and> ruinProbability r = real_of_int (ruinCount r) / real_of_int (TOTAL_RUNS cfg)"
    by blast
  have "testBankrolls mt clock cfg (start # starts) t = Inr (r # rs)"
    by (simp add: r rs)
  then show ?case using s ss al l c v p by simp
qed

lemma tableLines_starts:
  "map fst (tableLines mt clock cfg starts t) = starts"
  by (induction starts arbitrary: t) (auto split: prod.splits)

text \<open>
  The programs as shipped: with the constants of Source.cpp, \<^verbatim>\<open>main\<close> completes with
  one report, for the bankroll 500, and returns 0; \<^verbatim>\<open>main\<close> of main.cpp returns 0.
\<close>

lemma main_Source_shipped:
  "\<exists>rs. main_Source mt clock SourceConfig = Inr (rs, 0) \<and> map startBankroll rs = [500]"
proof -
  have K: "1 \<le> HISTOGRAM_BINS SourceConfig" and R: "0 \<le> TOTAL_RUNS SourceConfig"
    by (simp_all add: SourceConfig_def)
  from testBankrolls_ok [OF K R, of mt clock "bankrollsToTest SourceConfig" 0] obtain rs where
    "testBankrolls mt clock SourceConfig (bankrollsToTest SourceConfig) 0 = Inr rs"
    and "map startBankroll rs = bankrollsToTest SourceConfig"
    by blast
  then show ?thesis by (auto simp: main_Source_def SourceConfig_def)
qed

lemma main_main_shipped:
  "snd (main_main mt clock mainConfig) = 0
   \<and> map fst (fst (main_main mt clock mainConfig)) =
       [500, 1000, 2500, 5000, 7500, 10000, 15000, 20000]"
  by (simp add: main_main_def tableLines_starts) (simp add: mainConfig_def)


lemma sampleA_1: "fsub 65 65 = 0"
  by (simp add: fsub_def rnd_def)

lemma sampleA_2: "fdiv 0 3 = 0"
  by (simp add: fdiv_def rnd_def)

lemma sampleA_3: "fmul 0 100 = 0"
  by (simp add: fmul_def rnd_def)

lemma sampleA_4: "fadd 65 0 = 65"
proof -
  have n: "normalise 2200 \<bar>65 + 0\<bar> 0 = (4573968371548160, (- 46))"
    by (simp add: eval_nat_numeral)
  have r: "roundEven 4573968371548160 = 4573968371548160"
    using roundEven_step [of "4573968371548160" 4573968371548160] by simp
  show ?thesis
    unfolding fadd_def using rnd_step [OF _ n r] by (simp add: pow2_def)
qed

lemma sampleA_5: "fmul 1 100 = 100"
proof -
  have n: "normalise 2200 \<bar>1 * 100\<bar> 0 = (7036874417766400, (- 46))"
    by (simp add: eval_nat_numeral)
  have r: "roundEven 7036874417766400 = 7036874417766400"
    using roundEven_step [of "7036874417766400" 7036874417766400] by simp
  show ?thesis
    unfolding fmul_def using rnd_step [OF _ n r] by (simp add: pow2_def)
qed

lemma sampleA_6: "fadd 65 100 = 165"
proof -
  have n: "normalise 2200 \<bar>65 + 100\<bar> 0 = (5805421394657280, (- 45))"
    by (simp add: eval_nat_numeral)
  have r: "roundEven 5805421394657280 = 5805421394657280"
    using roundEven_step [of "5805421394657280" 5805421394657280] by simp
  show ?thesis
    unfolding fadd_def using rnd_step [OF _ n r] by (simp add: pow2_def)
qed

lemma sampleA_7: "fmul 2 100 = 200"
proof -
  have n: "normalise 2200 \<bar>2 * 100\<bar> 0 = (7036874417766400, (- 45))"
    by (simp add: eval_nat_numeral)
  have r: "roundEven 7036874417766400 = 7036874417766400"
    using roundEven_step [of "7036874417766400" 7036874417766400] by simp
  show ?thesis
    unfolding fmul_def using rnd_step [OF _ n r] by (simp add: pow2_def)
qed

lemma sampleA_8: "fadd 65 200 = 265"
proof -
  have n: "normalise 2200 \<bar>65 + 200\<bar> 0 = (4661929301770240, (- 44))"
    by (simp add: eval_nat_numeral)
  have r: "roundEven 4661929301770240 = 4661929301770240"
    using roundEven_step [of "4661929301770240" 4661929301770240] by simp
  show ?thesis
    unfolding fadd_def using rnd_step [OF _ n r] by (simp add: pow2_def)
qed

lemma sampleA_9: "fdiv 0 100 = 0"
  by (simp add: fdiv_def rnd_def)

lemmas sampleA =
    sampleA_1 sampleA_2 sampleA_3 sampleA_4 sampleA_5 sampleA_6 sampleA_7 sampleA_8 sampleA_9

lemma sample_histogram_a:
  "printBankrollHistogram [65, 15, 65] 25 3 3 =
     Inr (Some \<lparr>numSurvivors = 2, ruinedRuns = 1, minBankroll = 65, maxBankroll = 65,
                binWidth = 100, bins = [(65, 0), (165, 0), (265, 2)],
                maxBinCount = 2\<rparr>)"
proof -
  have s: "splitLoop 25 [65, 15, 65] ([], 0, DBL_MAX, - DBL_MAX) = ([65, 65], 1, 65, 65)"
    by (simp add: DBL_MAX_def)
  have b: "initBins 65 100 3 = [(65, 0), (165, 0), (265, 0)]"
    by (simp add: initBins_def eval_nat_numeral sampleA)
  have p: "populate 65 65 100 [65, 65] (initBins 65 100 3, 0) = Inr ([(65, 0), (165, 0),
      (265, 2)], 2)"
    unfolding b by (simp add: sampleA)
  show ?thesis
    using printBankrollHistogram_eval [OF s _ _ p, of 3] by (simp add: sampleA)
qed

lemma sampleB_1: "fsub 75 25 = 50"
proof -
  have n: "normalise 2200 \<bar>75 - 25\<bar> 0 = (7036874417766400, (- 47))"
    by (simp add: eval_nat_numeral)
  have r: "roundEven 7036874417766400 = 7036874417766400"
    using roundEven_step [of "7036874417766400" 7036874417766400] by simp
  show ?thesis
    unfolding fsub_def using rnd_step [OF _ n r] by (simp add: pow2_def)
qed

lemma sampleB_2: "fdiv 50 3 = (4691249611844267 / 281474976710656)"
proof -
  have n: "normalise 2200 \<bar>50 / 3\<bar> 0 = ((14073748835532800 / 3), (- 48))"
    by (simp add: eval_nat_numeral)
  have r: "roundEven (14073748835532800 / 3) = 4691249611844267"
    using roundEven_step [of "(14073748835532800 / 3)" 4691249611844266] by simp
  show ?thesis
    unfolding fdiv_def using rnd_step [OF _ n r] by (simp add: pow2_def)
qed

lemma sampleB_3: "fmul 0 (4691249611844267 / 281474976710656) = 0"
  by (simp add: fmul_def rnd_def)

lemma sampleB_4: "fadd 25 0 = 25"
proof -
  have n: "normalise 2200 \<bar>25 + 0\<bar> 0 = (7036874417766400, (- 48))"
    by (simp add: eval_nat_numeral)
  have r: "roundEven 7036874417766400 = 7036874417766400"
    using roundEven_step [of "7036874417766400" 7036874417766400] by simp
  show ?thesis
    unfolding fadd_def using rnd_step [OF _ n r] by (simp add: pow2_def)
qed

lemma sampleB_5: "fmul 1 (4691249611844267 / 281474976710656) =
    (4691249611844267 / 281474976710656)"
proof -
  have n: "normalise 2200 \<bar>1 * (4691249611844267 / 281474976710656)\<bar> 0 = (4691249611844267,
      (- 48))"
    by (simp add: eval_nat_numeral)
  have r: "roundEven 4691249611844267 = 4691249611844267"
    using roundEven_step [of "4691249611844267" 4691249611844267] by simp
  show ?thesis
    unfolding fmul_def using rnd_step [OF _ n r] by (simp add: pow2_def)
qed

lemma sampleB_6: "fadd 25 (4691249611844267 / 281474976710656) =
    (2932031007402667 / 70368744177664)"
proof -
  have n: "normalise 2200 \<bar>25 + (4691249611844267 / 281474976710656)\<bar> 0 =
      ((11728124029610667 / 2), (- 47))"
    by (simp add: eval_nat_numeral)
  have r: "roundEven (11728124029610667 / 2) = 5864062014805334"
    using roundEven_step [of "(11728124029610667 / 2)" 5864062014805333] by simp
  show ?thesis
    unfolding fadd_def using rnd_step [OF _ n r] by (simp add: pow2_def)
qed

lemma sampleB_7: "fmul 2 (4691249611844267 / 281474976710656) =
    (4691249611844267 / 140737488355328)"
proof -
  have n: "normalise 2200 \<bar>2 * (4691249611844267 / 281474976710656)\<bar> 0 = (4691249611844267,
      (- 47))"
    by (simp add: eval_nat_numeral)
  have r: "roundEven 4691249611844267 = 4691249611844267"
    using roundEven_step [of "4691249611844267" 4691249611844267] by simp
  show ?thesis
    unfolding fmul_def using rnd_step [OF _ n r] by (simp add: pow2_def)
qed

lemma sampleB_8: "fadd 25 (4691249611844267 / 140737488355328) =
    (8209686820727467 / 140737488355328)"
proof -
  have n: "normalise 2200 \<bar>25 + (4691249611844267 / 140737488355328)\<bar> 0 =
      (8209686820727467, (- 47))"
    by (simp add: eval_nat_numeral)
  have r: "roundEven 8209686820727467 = 8209686820727467"
    using roundEven_step [of "8209686820727467" 8209686820727467] by simp
  show ?thesis
    unfolding fadd_def using rnd_step [OF _ n r] by (simp add: pow2_def)
qed

lemma sampleB_9: "fdiv 50 (4691249611844267 / 281474976710656) = 3"
proof -
  have n: "normalise 2200 \<bar>50 / (4691249611844267 / 281474976710656)\<bar> 0 =
      ((31691265005705735037417580134400 / 4691249611844267), (- 51))"
    by (simp add: eval_nat_numeral)
  have r: "roundEven (31691265005705735037417580134400 / 4691249611844267) = 6755399441055744"
    using roundEven_step
        [of "(31691265005705735037417580134400 / 4691249611844267)" 6755399441055743] by simp
  show ?thesis
    unfolding fdiv_def using rnd_step [OF _ n r] by (simp add: pow2_def)
qed

lemma sampleB_10: "fmul 3 (4691249611844267 / 281474976710656) = 50"
proof -
  have n: "normalise 2200 \<bar>3 * (4691249611844267 / 281474976710656)\<bar> 0 =
      ((14073748835532801 / 2), (- 47))"
    by (simp add: eval_nat_numeral)
  have r: "roundEven (14073748835532801 / 2) = 7036874417766400"
    using roundEven_step [of "(14073748835532801 / 2)" 7036874417766400] by simp
  show ?thesis
    unfolding fmul_def using rnd_step [OF _ n r] by (simp add: pow2_def)
qed

lemma sampleB_11: "fadd 25 50 = 75"
proof -
  have n: "normalise 2200 \<bar>25 + 50\<bar> 0 = (5277655813324800, (- 46))"
    by (simp add: eval_nat_numeral)
  have r: "roundEven 5277655813324800 = 5277655813324800"
    using roundEven_step [of "5277655813324800" 5277655813324800] by simp
  show ?thesis
    unfolding fadd_def using rnd_step [OF _ n r] by (simp add: pow2_def)
qed

lemma sampleB_12: "fsub 25 25 = 0"
  by (simp add: fsub_def rnd_def)

lemma sampleB_13: "fdiv 0 (4691249611844267 / 281474976710656) = 0"
  by (simp add: fdiv_def rnd_def)

lemmas sampleB =
    sampleB_1 sampleB_2 sampleB_3 sampleB_4 sampleB_5 sampleB_6 sampleB_7 sampleB_8 sampleB_9 sampleB_10 sampleB_11 sampleB_12 sampleB_13

lemma sample_histogram_b:
  "printBankrollHistogram [75, 25, 75] 25 3 3 =
     Inr (Some \<lparr>numSurvivors = 3, ruinedRuns = 0, minBankroll = 25, maxBankroll = 75,
                binWidth = 4691249611844267 / 281474976710656, bins = [(25, 1),
                    (2932031007402667 / 70368744177664, 0),
                        (8209686820727467 / 140737488355328, 2)],
                maxBinCount = 2\<rparr>)"
proof -
  have s: "splitLoop 25 [75, 25, 75] ([], 0, DBL_MAX, - DBL_MAX) = ([75, 25, 75], 0, 25, 75)"
    by (simp add: DBL_MAX_def)
  have b: "initBins 25 (4691249611844267 / 281474976710656) 3 = [(25, 0),
      (2932031007402667 / 70368744177664, 0), (8209686820727467 / 140737488355328, 0)]"
    by (simp add: initBins_def eval_nat_numeral sampleB)
  have p: "populate 25 75 (4691249611844267 / 281474976710656) [75, 25, 75]
      (initBins 25 (4691249611844267 / 281474976710656) 3, 0) = Inr ([(25, 1),
          (2932031007402667 / 70368744177664, 0), (8209686820727467 / 140737488355328, 2)], 2)"
    unfolding b by (simp add: sampleB)
  show ?thesis
    using printBankrollHistogram_eval [OF s _ _ p, of 3] by (simp add: sampleB)
qed

lemma sample_main:
  "main_Source sampleGenerator sampleClock sampleConfig =
     Inr ([\<lparr>startBankroll = 40, ruinCount = 1, ruinProbability = 1 / 3,
             finalBankrolls = [65, 15, 65],
             chart = Some \<lparr>numSurvivors = 2, ruinedRuns = 1, minBankroll = 65, maxBankroll =
                 65,
                    binWidth = 100, bins = [(65, 0), (165, 0), (265, 2)],
                    maxBinCount = 2\<rparr>\<rparr>,
           \<lparr>startBankroll = 50, ruinCount = 0, ruinProbability = 0,
             finalBankrolls = [75, 25, 75],
             chart = Some \<lparr>numSurvivors = 3, ruinedRuns = 0, minBankroll = 25, maxBankroll =
                 75,
                    binWidth = 4691249611844267 / 281474976710656, bins = [(25, 1),
                        (2932031007402667 / 70368744177664, 0),
                            (8209686820727467 / 140737488355328, 2)],
                    maxBinCount = 2\<rparr>\<rparr>], 0)"
proof -
  have c: "TOTAL_RUNS sampleConfig = 3" "BET_AMOUNT sampleConfig = 25"
    "HISTOGRAM_BINS sampleConfig = 3" "bankrollsToTest sampleConfig = [40, 50]"
    by (simp_all add: sampleConfig_def)
  have t1: "trialsLoop sampleGenerator sampleClock sampleConfig 40 0 0 0 [] = (1, [65, 15, 65], 3)"
    by code_simp
  have t2: "trialsLoop sampleGenerator sampleClock sampleConfig 50 0 3 0 [] = (0, [75, 25, 75], 6)"
    by code_simp
  show ?thesis
    unfolding main_Source_def
    by (simp add: testBankroll_def c t1 t2 sample_histogram_a sample_histogram_b)
qed


lemma invalid_1: "fsub 115 115 = 0"
  by (simp add: fsub_def rnd_def)

lemma invalid_2: "fdiv 0 3 = 0"
  by (simp add: fdiv_def rnd_def)

lemma invalid_3: "fmul 0 100 = 0"
  by (simp add: fmul_def rnd_def)

lemma invalid_4: "fadd 115 0 = 115"
proof -
  have n: "normalise 2200 \<bar>115 + 0\<bar> 0 = (8092405580431360, (- 46))"
    by (simp add: eval_nat_numeral)
  have r: "roundEven 8092405580431360 = 8092405580431360"
    using roundEven_step [of "8092405580431360" 8092405580431360] by simp
  show ?thesis
    unfolding fadd_def using rnd_step [OF _ n r] by (simp add: pow2_def)
qed

lemma invalid_5: "fmul 1 100 = 100"
proof -
  have n: "normalise 2200 \<bar>1 * 100\<bar> 0 = (7036874417766400, (- 46))"
    by (simp add: eval_nat_numeral)
  have r: "roundEven 7036874417766400 = 7036874417766400"
    using roundEven_step [of "7036874417766400" 7036874417766400] by simp
  show ?thesis
    unfolding fmul_def using rnd_step [OF _ n r] by (simp add: pow2_def)
qed

lemma invalid_6: "fadd 115 100 = 215"
proof -
  have n: "normalise 2200 \<bar>115 + 100\<bar> 0 = (7564639999098880, (- 45))"
    by (simp add: eval_nat_numeral)
  have r: "roundEven 7564639999098880 = 7564639999098880"
    using roundEven_step [of "7564639999098880" 7564639999098880] by simp
  show ?thesis
    unfolding fadd_def using rnd_step [OF _ n r] by (simp add: pow2_def)
qed

lemma invalid_7: "fmul 2 100 = 200"
proof -
  have n: "normalise 2200 \<bar>2 * 100\<bar> 0 = (7036874417766400, (- 45))"
    by (simp add: eval_nat_numeral)
  have r: "roundEven 7036874417766400 = 7036874417766400"
    using roundEven_step [of "7036874417766400" 7036874417766400] by simp
  show ?thesis
    unfolding fmul_def using rnd_step [OF _ n r] by (simp add: pow2_def)
qed

lemma invalid_8: "fadd 115 200 = 315"
proof -
  have n: "normalise 2200 \<bar>115 + 200\<bar> 0 = (5541538603991040, (- 44))"
    by (simp add: eval_nat_numeral)
  have r: "roundEven 5541538603991040 = 5541538603991040"
    using roundEven_step [of "5541538603991040" 5541538603991040] by simp
  show ?thesis
    unfolding fadd_def using rnd_step [OF _ n r] by (simp add: pow2_def)
qed

lemma invalid_9: "fdiv 0 100 = 0"
  by (simp add: fdiv_def rnd_def)

lemmas invalid =
    invalid_1 invalid_2 invalid_3 invalid_4 invalid_5 invalid_6 invalid_7 invalid_8 invalid_9

lemma invalid_histogram:
  "printBankrollHistogram [115, 115, 115] 25 3 3 =
     Inr (Some \<lparr>numSurvivors = 3, ruinedRuns = 0, minBankroll = 115, maxBankroll = 115,
                binWidth = 100, bins = [(115, 0), (215, 0), (315, 3)],
                maxBinCount = 3\<rparr>)"
proof -
  have s: "splitLoop 25 [115, 115, 115] ([], 0, DBL_MAX, - DBL_MAX) =
      ([115, 115, 115], 0, 115, 115)"
    by (simp add: DBL_MAX_def)
  have b: "initBins 115 100 3 = [(115, 0), (215, 0), (315, 0)]"
    by (simp add: initBins_def eval_nat_numeral invalid)
  have p: "populate 115 115 100 [115, 115, 115] (initBins 115 100 3, 0) = Inr ([(115, 0), (215, 0),
      (315, 3)], 3)"
    unfolding b by (simp add: invalid)
  show ?thesis
    using printBankrollHistogram_eval [OF s _ _ p, of 3] by (simp add: invalid)
qed

text \<open>
  Claim C8 says that a configuration with a win probability outside the interval from
  0 to 1 is reported, that no trial is run and that the exit code is not zero. No
  statement of either \<^verbatim>\<open>main\<close> inspects the configuration: with a win probability of
  2 the trials are run (every bet is won), the histogram is made and 0 is returned.
\<close>

theorem invalid_probability_runs_counterexample:
  "main_Source sampleGenerator sampleClock
     \<lparr>HOUSE_WIN_PROB = 2, BET_AMOUNT = 25, BETS_PER_RUN = 3, TOTAL_RUNS = 3,
      HISTOGRAM_BINS = 3, bankrollsToTest = [40]\<rparr> =
   Inr ([\<lparr>startBankroll = 40, ruinCount = 0, ruinProbability = 0,
           finalBankrolls = [115, 115, 115],
           chart = Some \<lparr>numSurvivors = 3, ruinedRuns = 0, minBankroll = 115,
                maxBankroll = 115, binWidth = 100,
                bins = [(115, 0), (215, 0), (315, 3)], maxBinCount = 3\<rparr>\<rparr>], 0)"
proof -
  have t: "trialsLoop sampleGenerator sampleClock
     \<lparr>HOUSE_WIN_PROB = 2, BET_AMOUNT = 25, BETS_PER_RUN = 3, TOTAL_RUNS = 3,
      HISTOGRAM_BINS = 3, bankrollsToTest = [40]\<rparr> 40 0 0 0 [] = (0, [115, 115, 115], 3)"
    by code_simp
  show ?thesis
    unfolding main_Source_def by (simp add: testBankroll_def t invalid_histogram)
qed

text \<open>
  Claim C8, amended. Neither program validates its configuration. Whatever the win
  probability, the bet amount, the number of bets and the list of bankrolls, \<^verbatim>\<open>main\<close>
  of Source.cpp with at least one bin and a run count that is not negative runs
  \<open>TOTAL_RUNS\<close> trials for every bankroll of the list and returns 0, and \<^verbatim>\<open>main\<close> of
  main.cpp prints one line per bankroll and returns 0 for every configuration.
\<close>

theorem no_validation:
  assumes "1 \<le> HISTOGRAM_BINS cfg" and "0 \<le> TOTAL_RUNS cfg"
  shows "(\<exists>rs. main_Source mt clock cfg = Inr (rs, 0)
            \<and> map startBankroll rs = bankrollsToTest cfg
            \<and> (\<forall>r \<in> set rs. length (finalBankrolls r) = nat (TOTAL_RUNS cfg)))
       \<and> snd (main_main mt clock cfg) = 0
       \<and> map fst (fst (main_main mt clock cfg)) = bankrollsToTest cfg"
proof -
  from testBankrolls_ok [OF assms, of mt clock "bankrollsToTest cfg" 0] obtain rs where
    rs: "testBankrolls mt clock cfg (bankrollsToTest cfg) 0 = Inr rs"
    and ss: "map startBankroll rs = bankrollsToTest cfg"
    and al: "\<forall>r \<in> set rs. length (finalBankrolls r) = nat (TOTAL_RUNS cfg)"
    by blast
  have m: "main_Source mt clock cfg = Inr (rs, 0)"
    unfolding main_Source_def rs by simp
  have 1: "\<exists>rs. main_Source mt clock cfg = Inr (rs, 0)
            \<and> map startBankroll rs = bankrollsToTest cfg
            \<and> (\<forall>r \<in> set rs. length (finalBankrolls r) = nat (TOTAL_RUNS cfg))"
    using m ss al by blast
  have 2: "snd (main_main mt clock cfg) = 0" by (simp add: main_main_def)
  have 3: "map fst (fst (main_main mt clock cfg)) = bankrollsToTest cfg"
    by (simp add: main_main_def tableLines_starts)
  from 1 2 3 show ?thesis by blast
qed

theorem no_validation_witness:
  "1 \<le> HISTOGRAM_BINS sampleConfig \<and> 0 \<le> TOTAL_RUNS sampleConfig
   \<and> (\<exists>rs. main_Source sampleGenerator sampleClock sampleConfig = Inr (rs, 0)
          \<and> map startBankroll rs = [40, 50]
          \<and> map (\<lambda>r. length (finalBankrolls r)) rs = [3, 3])
   \<and> snd (main_main sampleGenerator sampleClock sampleConfig) = 0"
proof -
  have h1: "1 \<le> HISTOGRAM_BINS sampleConfig" and h2: "0 \<le> TOTAL_RUNS sampleConfig"
    by (simp_all add: sampleConfig_def)
  from no_validation [OF h1 h2, of sampleGenerator sampleClock] obtain rs where
    m: "main_Source sampleGenerator sampleClock sampleConfig = Inr (rs, 0)"
    and z: "snd (main_main sampleGenerator sampleClock sampleConfig) = 0"
    by blast
  show ?thesis
    using h1 h2 m z unfolding sample_main by auto
qed

lemma seedOf_cong:
  assumes "(word_of_int a :: 32 word) = word_of_int b"
  shows "seedOf a i = seedOf b i"
  using assms by (simp add: seedOf_def)

lemma trialsLoop_cong:
  assumes "\<forall>t. (word_of_int (clock1 t) :: 32 word) = word_of_int (clock2 t)"
  shows "trialsLoop mt clock1 cfg start i t rc fs = trialsLoop mt clock2 cfg start i t rc fs"
proof -
  have "trialAt mt clock1 cfg start t i = trialAt mt clock2 cfg start t i"
    using assms by (auto simp: trialAt_def simulateSingleRun_def trial_def fun_eq_iff
        seedOf_cong [of "clock1 _" "clock2 _"])
  then show ?thesis unfolding trialsLoop_run by simp
qed

lemma flagsLoop_cong:
  assumes "\<forall>t. (word_of_int (clock1 t) :: 32 word) = word_of_int (clock2 t)"
  shows "flagsLoop mt clock1 cfg start i t rc = flagsLoop mt clock2 cfg start i t rc"
  using assms
proof (induction mt clock1 cfg start i t rc rule: flagsLoop.induct)
  case (1 mt clock1 cfg start i t rc)
  have s: "seedOf (clock1 t) i = seedOf (clock2 t) i"
    using "1.prems" seedOf_cong [of "clock1 t" "clock2 t" i] by blast
  show ?case
  proof (cases "i < TOTAL_RUNS cfg")
    case False
    have "flagsLoop mt clock1 cfg start i t rc = (rc, t)"
      using False by (subst flagsLoop.simps) simp
    moreover have "flagsLoop mt clock2 cfg start i t rc = (rc, t)"
      using False by (subst flagsLoop.simps) simp
    ultimately show ?thesis by simp
  next
    case True
    define rc' where "rc' =
      (if fst (simulateSingleRunFlag mt (clock1 t) start (BET_AMOUNT cfg)
                     (BETS_PER_RUN cfg) (HOUSE_WIN_PROB cfg) i)
           then rc + 1 else rc)"
    have e: "simulateSingleRunFlag mt (clock2 t) start (BET_AMOUNT cfg)
                     (BETS_PER_RUN cfg) (HOUSE_WIN_PROB cfg) i =
             simulateSingleRunFlag mt (clock1 t) start (BET_AMOUNT cfg)
                     (BETS_PER_RUN cfg) (HOUSE_WIN_PROB cfg) i"
      unfolding simulateSingleRunFlag_def s ..
    have l: "flagsLoop mt clock1 cfg start i t rc =
        flagsLoop mt clock1 cfg start (i + 1) (Suc t) rc'"
      using True by (subst flagsLoop.simps) (simp add: rc'_def)
    have r: "flagsLoop mt clock2 cfg start i t rc =
        flagsLoop mt clock2 cfg start (i + 1) (Suc t) rc'"
      using True by (subst flagsLoop.simps) (simp add: rc'_def e)
    show ?thesis
      unfolding l r rc'_def by (rule "1.IH" [OF True "1.prems"])
  qed
qed

lemma tableLines_cong:
  assumes "\<forall>t. (word_of_int (clock1 t) :: 32 word) = word_of_int (clock2 t)"
  shows "tableLines mt clock1 cfg starts t = tableLines mt clock2 cfg starts t"
  by (induction starts arbitrary: t) (simp_all add: flagsLoop_cong [OF assms])

lemma testBankroll_cong:
  assumes "\<forall>t. (word_of_int (clock1 t) :: 32 word) = word_of_int (clock2 t)"
  shows "testBankroll mt clock1 cfg start t = testBankroll mt clock2 cfg start t"
  unfolding testBankroll_def trialsLoop_cong [OF assms] ..

lemma testBankrolls_cong:
  assumes "\<forall>t. (word_of_int (clock1 t) :: 32 word) = word_of_int (clock2 t)"
  shows "testBankrolls mt clock1 cfg starts t = testBankrolls mt clock2 cfg starts t"
proof (induction starts arbitrary: t)
  case Nil
  show ?case by simp
next
  case (Cons start starts)
  show ?case
    unfolding testBankrolls.simps testBankroll_cong [OF assms] Cons ..
qed

lemma seedOf_mod: "uint (seedOf now i) = (now + i) mod 2 ^ 32"
  unfolding seedOf_def uint_word_of_int_eq take_bit_eq_mod by simp

lemma word_of_int_mod_cong:
  assumes "a mod 2 ^ 32 = b mod 2 ^ 32"
  shows "(word_of_int a :: 32 word) = word_of_int b"
  using assms by (simp add: word_of_int_eq_iff take_bit_eq_mod)

lemma seedOf_mod_cong:
  assumes "(now + i) mod 2 ^ 32 = (now' + i') mod 2 ^ 32"
  shows "seedOf now i = seedOf now' i'"
  unfolding seedOf_def using assms by (rule word_of_int_mod_cong)

lemma one_bet:
  "betLoop u b 1 p 0 c 0 [] =
     \<lparr>bankroll = (if u 0 < p then c + b else c - b), drawn = 1, staked = [c],
      ruined = ((if u 0 < p then c + b else c - b) < b)\<rparr>"
proof -
  define c' where "c' = (if u 0 < p then c + b else c - b)"
  have last: "betLoop u b 1 p (0 + 1) c' (Suc 0) ([] @ [c]) =
          \<lparr>bankroll = c', drawn = 1, staked = [c], ruined = False\<rparr>"
    by (subst betLoop.simps) simp
  show ?thesis
  proof (cases "c' < b")
    case True
    then show ?thesis
      unfolding c'_def [symmetric] by (subst betLoop.simps) (simp add: c'_def Let_def)
  next
    case False
    then have "betLoop u b 1 p 0 c 0 [] = betLoop u b 1 p (0 + 1) c' (Suc 0) ([] @ [c])"
      by (subst betLoop.simps) (simp add: c'_def Let_def)
    with False last show ?thesis unfolding c'_def [symmetric] by simp
  qed
qed

text \<open>
  The first output of the generator seeded with 5489, the seed of a default-constructed
  \<^verbatim>\<open>std::mt19937\<close>, and the first two outputs for the seeds 4 and 5.
\<close>

lemma mt_default_first_output: "mtOutput 5489 0 = 3499211612"
  by code_simp

lemma mt_out_4_0: "mtOutput 4 0 = 4153361530"
  by code_simp

lemma mt_out_4_1: "mtOutput 4 (Suc 0) = 3868139694"
  by code_simp

lemma mt_out_5_0: "mtOutput 5 0 = 953453411"
  by code_simp

lemma mt_out_5_1: "mtOutput 5 (Suc 0) = 236996814"
  by code_simp

lemma canon_1: "fadd 4153361530 16613533482089447424 = 16613533486242809856"
proof -
  have n: "normalise 2200 \<bar>4153361530 + 16613533482089447424\<bar> 0 =
      ((8306766743121404477 / 1024), 11)"
    by (simp add: eval_nat_numeral)
  have r: "roundEven (8306766743121404477 / 1024) = 8112076897579497"
    using roundEven_step [of "(8306766743121404477 / 1024)" 8112076897579496] by simp
  show ?thesis
    unfolding fadd_def using rnd_step [OF _ n r] by (simp add: pow2_def)
qed

lemma canon_2: "fadd 953453411 1017893565386194944 = 1017893566339648384"
proof -
  have n: "normalise 2200 \<bar>953453411 + 1017893565386194944\<bar> 0 =
      ((1017893566339648355 / 128), 7)"
    by (simp add: eval_nat_numeral)
  have r: "roundEven (1017893566339648355 / 128) = 7952293487028503"
    using roundEven_step [of "(1017893566339648355 / 128)" 7952293487028502] by simp
  show ?thesis
    unfolding fadd_def using rnd_step [OF _ n r] by (simp add: pow2_def)
qed

lemma draw_4: "mt19937 4 0 = 8112076897579497 / 9007199254740992"
  unfolding mt19937_def by (simp add: mt_out_4_0 mt_out_4_1 canonical_def canon_1 canon_2)

lemma draw_5: "mt19937 5 0 = 7952293487028503 / 144115188075855872"
  unfolding mt19937_def by (simp add: mt_out_5_0 mt_out_5_1 canonical_def canon_1 canon_2)

lemma run_at_4: "simulateSingleRun mt19937 4 25 25 1 (5 / 9) 0 = 0"
  by (simp add: simulateSingleRun_def trial_def seedOf_def one_bet draw_4)

lemma run_at_5: "simulateSingleRun mt19937 5 25 25 1 (5 / 9) 0 = 50"
  by (simp add: simulateSingleRun_def trial_def seedOf_def one_bet draw_5)

text \<open>
  Claim C5 says that a trial's result depends on the configuration, a campaign seed and
  the trial index only, and not on the wall clock. The programs have no campaign seed:
  the seed of a trial is the clock reading at the call plus the trial index. With the
  library's generator, the win probability 5/9 and the bet amount 25 of the source, and
  one bet from a bankroll of 25, the run with trial index 0 is ruined when the clock
  reads 4 and returns 50 when it reads 5; a campaign of one such run counts one ruin
  on a clock that starts at 4 and none on a clock that starts at 5.
\<close>

theorem clock_changes_result_counterexample:
  "simulateSingleRun mt19937 4 25 25 1 (5 / 9) 0 = 0
   \<and> simulateSingleRun mt19937 5 25 25 1 (5 / 9) 0 = 50
   \<and> fst (trialsLoop mt19937 (tickClock 4) oneBetConfig 25 0 0 0 []) = 1
   \<and> fst (trialsLoop mt19937 (tickClock 5) oneBetConfig 25 0 0 0 []) = 0"
proof -
  have c: "TOTAL_RUNS oneBetConfig = 1" "BETS_PER_RUN oneBetConfig = 1"
    "BET_AMOUNT oneBetConfig = 25" "HOUSE_WIN_PROB oneBetConfig = 5 / 9"
    by (simp_all add: oneBetConfig_def SourceConfig_def)
  have a: "fst (trialsLoop mt19937 (tickClock 4) oneBetConfig 25 0 0 0 []) = 1"
    unfolding trialsLoop_run by (simp add: c trialAt_def tickClock_def run_at_4)
  have b: "fst (trialsLoop mt19937 (tickClock 5) oneBetConfig 25 0 0 0 []) = 0"
    unfolding trialsLoop_run by (simp add: c trialAt_def tickClock_def run_at_5)
  from run_at_4 run_at_5 a b show ?thesis by simp
qed


text \<open>
  Claim C5, amended. The seed of a trial is the clock reading at the call plus the
  trial index, modulo \<open>2 ^ 32\<close>; two calls of either trial engine with the same
  configuration whose sums agree modulo \<open>2 ^ 32\<close> return the same result; and two
  executions with the same configuration whose clocks agree modulo \<open>2 ^ 32\<close> at every
  reading produce the same reports (ruin counts and final bankrolls for every starting
  bankroll).
\<close>

theorem seed_determines_results:
  "uint (seedOf now i) = (now + i) mod 2 ^ 32
   \<and> (\<forall>now' i'. (now + i) mod 2 ^ 32 = (now' + i') mod 2 ^ 32 \<longrightarrow>
          simulateSingleRun mt now B0 b N p i = simulateSingleRun mt now' B0 b N p i'
        \<and> simulateSingleRunFlag mt now B0 b N p i = simulateSingleRunFlag mt now' B0 b N p i')
   \<and> ((\<forall>t. clock1 t mod 2 ^ 32 = clock2 t mod 2 ^ 32) \<longrightarrow>
          main_Source mt clock1 cfg = main_Source mt clock2 cfg
        \<and> main_main mt clock1 cfg = main_main mt clock2 cfg)"
proof -
  have 1: "uint (seedOf now i) = (now + i) mod 2 ^ 32"
    by (rule seedOf_mod)
  have 2: "\<forall>now' i'. (now + i) mod 2 ^ 32 = (now' + i') mod 2 ^ 32 \<longrightarrow>
          simulateSingleRun mt now B0 b N p i = simulateSingleRun mt now' B0 b N p i'
        \<and> simulateSingleRunFlag mt now B0 b N p i = simulateSingleRunFlag mt now' B0 b N p i'"
  proof (intro allI impI)
    fix now' i'
    assume "(now + i) mod 2 ^ 32 = (now' + i') mod 2 ^ 32"
    then have "seedOf now i = seedOf now' i'" by (rule seedOf_mod_cong)
    then show "simulateSingleRun mt now B0 b N p i = simulateSingleRun mt now' B0 b N p i'
        \<and> simulateSingleRunFlag mt now B0 b N p i = simulateSingleRunFlag mt now' B0 b N p i'"
      by (simp add: simulateSingleRun_def simulateSingleRunFlag_def trial_def)
  qed
  have 3: "(\<forall>t. clock1 t mod 2 ^ 32 = clock2 t mod 2 ^ 32) \<longrightarrow>
          main_Source mt clock1 cfg = main_Source mt clock2 cfg
        \<and> main_main mt clock1 cfg = main_main mt clock2 cfg"
  proof
    assume m: "\<forall>t. clock1 t mod 2 ^ 32 = clock2 t mod 2 ^ 32"
    have w: "\<forall>t. (word_of_int (clock1 t) :: 32 word) = word_of_int (clock2 t)"
      using m word_of_int_mod_cong by blast
    have a: "main_Source mt clock1 cfg = main_Source mt clock2 cfg"
      unfolding main_Source_def testBankrolls_cong [OF w] ..
    have b: "main_main mt clock1 cfg = main_main mt clock2 cfg"
      unfolding main_main_def tableLines_cong [OF w] ..
    from a b show "main_Source mt clock1 cfg = main_Source mt clock2 cfg
        \<and> main_main mt clock1 cfg = main_main mt clock2 cfg" by simp
  qed
  from 1 2 3 show ?thesis by blast
qed

theorem seed_determines_results_witness:
  "uint (seedOf (2 ^ 32 + 4) 0) = 4
   \<and> simulateSingleRun mt19937 (2 ^ 32 + 4) 25 25 1 (5 / 9) 0
       = simulateSingleRun mt19937 4 25 25 1 (5 / 9) 0
   \<and> wrappedClock 0 \<noteq> sampleClock 0
   \<and> main_Source mt19937 wrappedClock sampleConfig =
       main_Source mt19937 sampleClock sampleConfig
   \<and> main_main mt19937 wrappedClock sampleConfig = main_main mt19937 sampleClock sampleConfig"
proof -
  note t = seed_determines_results [of "2 ^ 32 + 4" 0 mt19937 25 25 1 "5 / 9"
      wrappedClock sampleClock sampleConfig]
  have h1: "(2 ^ 32 + 4 + 0) mod 2 ^ 32 = ((4::int) + 0) mod 2 ^ 32" by simp
  have h2: "\<forall>t. wrappedClock t mod 2 ^ 32 = sampleClock t mod 2 ^ 32"
    by (simp add: wrappedClock_def)
  have d: "wrappedClock 0 \<noteq> sampleClock 0" by (simp add: wrappedClock_def)
  have s: "uint (seedOf (2 ^ 32 + 4) 0) = 4" using t by simp
  from t h1 have r: "simulateSingleRun mt19937 (2 ^ 32 + 4) 25 25 1 (5 / 9) 0
       = simulateSingleRun mt19937 4 25 25 1 (5 / 9) 0" by blast
  from t h2 have m: "main_Source mt19937 wrappedClock sampleConfig =
      main_Source mt19937 sampleClock sampleConfig
   \<and> main_main mt19937 wrappedClock sampleConfig = main_main mt19937 sampleClock sampleConfig"
    by blast
  from s r d m show ?thesis by simp
qed

end
